theory Spec2Isabelle
  imports Main "HOL-Library.Multiset"
begin

section \<open>Python values and the exceptions of the access-control module\<close>

text \<open>
  The module \<^verbatim>\<open>oauth2_lib/access_control.py\<close> works on dynamically typed data: the
  security definitions come from a YAML file, the claims from a token introspection
  response, the request body from JSON. Such a value is \<^verbatim>\<open>None\<close>, a boolean, an
  integer, a string, a list or a dictionary with string keys. Dictionaries keep their
  insertion order, so they are association lists; a lookup takes the first entry of a
  key. Floating point numbers are not represented.
\<close>

datatype pyval =
    VNone
  | VBool bool
  | VInt int
  | VStr string
  | VList "pyval list"
  | VDict "(string \<times> pyval) list"

text \<open>
  \<^verbatim>\<open>InvalidRuleDefinition(message, counter, definition)\<close> keeps its three arguments. The
  message is kept as the format the source uses together with the value it formats;
  the text of the other exceptions is not tracked.
\<close>

datatype message =
    Missing_endpoint
  | Missing_HTTP_methods
  | Not_a_valid_HTTP_method pyval
  | Missing_conditions_or_options
  | Missing_option pyval
  | Where_option_should_be_one_of_valid

datatype error =
    InvalidRuleDefinition message nat pyval
  | KeyError pyval
  | AssertionError
  | TypeError
  | AttributeError
  | UnboundLocalError
  | BadRequest

subsection \<open>Built-in operations\<close>

text \<open>Lists and dictionaries are unhashable; every other value can be a set element.\<close>

fun hashable :: "pyval \<Rightarrow> bool" where
  "hashable (VList xs) = False"
| "hashable (VDict d) = False"
| "hashable v = True"

text \<open>
  Python compares \<^verbatim>\<open>True == 1\<close> and \<^verbatim>\<open>False == 0\<close>, with equal hashes. A set
  element is stored under the key \<open>hkey\<close>, so that HOL equality of keys is Python
  equality of hashable values.
\<close>

fun hkey :: "pyval \<Rightarrow> pyval" where
  "hkey (VBool b) = VInt (if b then 1 else 0)"
| "hkey v = v"

text \<open>\<^verbatim>\<open>for x in v\<close>: the elements of a list, the characters of a string, the keys of a dictionary.\<close>

fun py_iter :: "pyval \<Rightarrow> error + pyval list" where
  "py_iter (VList xs) = Inr xs"
| "py_iter (VStr s) = Inr (map (\<lambda>c. VStr [c]) s)"
| "py_iter (VDict d) = Inr (map (\<lambda>kv. VStr (fst kv)) d)"
| "py_iter v = Inl TypeError"

text \<open>\<^verbatim>\<open>set(v)\<close>.\<close>

definition py_set :: "pyval \<Rightarrow> error + pyval set" where
  "py_set v =
     (case py_iter v of
        Inl e \<Rightarrow> Inl e
      | Inr xs \<Rightarrow> if list_all hashable xs then Inr (hkey ` set xs) else Inl TypeError)"

text \<open>\<^verbatim>\<open>v[k]\<close> for a string \<open>k\<close>.\<close>

fun subscript :: "pyval \<Rightarrow> string \<Rightarrow> error + pyval" where
  "subscript (VDict d) k =
     (case map_of d k of None \<Rightarrow> Inl (KeyError (VStr k)) | Some v \<Rightarrow> Inr v)"
| "subscript v k = Inl TypeError"

text \<open>\<^verbatim>\<open>d.get(k)\<close> on a dictionary with string keys, for any key value \<open>k\<close>.\<close>

definition dict_get :: "(string \<times> pyval) list \<Rightarrow> pyval \<Rightarrow> error + pyval" where
  "dict_get d k =
     (if \<not> hashable k then Inl TypeError
      else case k of
             VStr s \<Rightarrow> (case map_of d s of None \<Rightarrow> Inr VNone | Some v \<Rightarrow> Inr v)
           | _ \<Rightarrow> Inr VNone)"

text \<open>\<^verbatim>\<open>v.get(k)\<close> on any value: only a dictionary has the method.\<close>

fun py_get :: "pyval \<Rightarrow> pyval \<Rightarrow> error + pyval" where
  "py_get (VDict d) k = dict_get d k"
| "py_get v k = Inl AttributeError"

text \<open>\<^verbatim>\<open>v.items()\<close>.\<close>

fun py_items :: "pyval \<Rightarrow> error + (string \<times> pyval) list" where
  "py_items (VDict d) = Inr d"
| "py_items v = Inl AttributeError"

text \<open>\<^verbatim>\<open>len(v)\<close>.\<close>

fun py_len :: "pyval \<Rightarrow> error + nat" where
  "py_len (VList xs) = Inr (length xs)"
| "py_len (VStr s) = Inr (length s)"
| "py_len (VDict d) = Inr (length d)"
| "py_len v = Inl TypeError"

text \<open>\<^verbatim>\<open>v in S\<close> for a set \<open>S\<close>.\<close>

definition in_set :: "pyval \<Rightarrow> pyval set \<Rightarrow> error + bool" where
  "in_set v S = (if hashable v then Inr (hkey v \<in> S) else Inl TypeError)"

text \<open>\<^verbatim>\<open>urn.startswith(prefix)\<close> and \<^verbatim>\<open>"rules" in text\<close> on strings.\<close>

fun startswith :: "string \<Rightarrow> string \<Rightarrow> bool" where
  "startswith s [] = True"
| "startswith [] (p # ps) = False"
| "startswith (c # cs) (p # ps) = (c = p \<and> startswith cs ps)"

fun contains_str :: "string \<Rightarrow> string \<Rightarrow> bool" where
  "contains_str [] p = (p = [])"
| "contains_str (c # cs) p = (startswith (c # cs) p \<or> contains_str cs p)"

text \<open>\<^verbatim>\<open>s in v\<close> for a string \<open>s\<close> and a list, a string or a dictionary \<open>v\<close>.\<close>

fun str_in :: "string \<Rightarrow> pyval \<Rightarrow> error + bool" where
  "str_in s (VList xs) = Inr (VStr s \<in> set xs)"
| "str_in s (VStr t) = Inr (contains_str t s)"
| "str_in s (VDict d) = Inr (s \<in> fst ` set d)"
| "str_in s v = Inl TypeError"

text \<open>
  \<^verbatim>\<open>s.split(" ")\<close>: the string is cut at every single space, so two spaces in a row
  give an empty token and the empty string gives one empty token.
\<close>

fun split_space :: "string \<Rightarrow> string list" where
  "split_space [] = [[]]"
| "split_space (c # cs) =
     (if c = CHR '' '' then [] # split_space cs
      else case split_space cs of
             w # ws \<Rightarrow> (c # w) # ws
           | [] \<Rightarrow> [[c]])"

section \<open>UserAttributes\<close>

text \<open>The claims (\<^verbatim>\<open>oauth_attrs\<close>) are a \<^verbatim>\<open>Dict[str, Any]\<close>.\<close>

type_synonym claims = "(string \<times> pyval) list"

text \<open>\<^verbatim>\<open>self.oauth_attrs.get(key, default)\<close>.\<close>

definition attr_get :: "claims \<Rightarrow> string \<Rightarrow> pyval \<Rightarrow> pyval" where
  "attr_get u k dflt = (case map_of u k of None \<Rightarrow> dflt | Some v \<Rightarrow> v)"

definition active :: "claims \<Rightarrow> pyval" where
  "active u = attr_get u ''active'' (VBool False)"

definition authenticating_authority :: "claims \<Rightarrow> pyval" where
  "authenticating_authority u = attr_get u ''authenticating_authority'' (VStr '''')"

definition display_name :: "claims \<Rightarrow> pyval" where
  "display_name u = attr_get u ''display_name'' (VStr '''')"

definition principal_name :: "claims \<Rightarrow> pyval" where
  "principal_name u = attr_get u ''edu_person_principal_name'' (VStr '''')"

definition email :: "claims \<Rightarrow> pyval" where
  "email u = attr_get u ''email'' (VStr '''')"

definition memberships :: "claims \<Rightarrow> pyval" where
  "memberships u = attr_get u ''edumember_is_member_of'' (VList [])"

definition entitlements :: "claims \<Rightarrow> pyval" where
  "entitlements u = attr_get u ''eduperson_entitlement'' (VList [])"

definition user_name :: "claims \<Rightarrow> pyval" where
  "user_name u =
     (if ''user_name'' \<in> fst ` set u then attr_get u ''user_name'' VNone
      else if ''unspecified_id'' \<in> fst ` set u then attr_get u ''unspecified_id'' (VStr '''')
      else VStr '''')"

text \<open>
  \<^verbatim>\<open>{urn[length:] for urn in xs if urn.startswith(prefix)}\<close>, element by element: a
  value that is not a string has no \<^verbatim>\<open>startswith\<close>.
\<close>

fun strip_prefix :: "string \<Rightarrow> pyval list \<Rightarrow> error + pyval set" where
  "strip_prefix prefix [] = Inr {}"
| "strip_prefix prefix (VStr urn # xs) =
     (case strip_prefix prefix xs of
        Inl e \<Rightarrow> Inl e
      | Inr S \<Rightarrow>
          Inr (if startswith urn prefix then insert (VStr (drop (length prefix) urn)) S else S))"
| "strip_prefix prefix (v # xs) = Inl AttributeError"

definition with_prefix :: "string \<Rightarrow> pyval \<Rightarrow> error + pyval set" where
  "with_prefix prefix v =
     (case py_iter v of Inl e \<Rightarrow> Inl e | Inr xs \<Rightarrow> strip_prefix prefix xs)"

definition SABRoles_URN :: string where
  "SABRoles_URN = ''urn:mace:surfnet.nl:surfnet.nl:sab:role:''"

definition Teams_URN :: string where
  "Teams_URN = ''urn:collab:group:surfteams.nl:nl:surfnet:diensten:''"

definition TargetOrganizations_URN :: string where
  "TargetOrganizations_URN = ''urn:mace:surfnet.nl:surfnet.nl:sab:organizationCode:''"

definition OrganizationGUID_URN :: string where
  "OrganizationGUID_URN = ''urn:mace:surfnet.nl:surfnet.nl:sab:organizationGUID:''"

definition roles :: "claims \<Rightarrow> error + pyval set" where
  "roles u = with_prefix SABRoles_URN (entitlements u)"

definition teams :: "claims \<Rightarrow> error + pyval set" where
  "teams u = with_prefix Teams_URN (memberships u)"

definition organization_codes :: "claims \<Rightarrow> error + pyval set" where
  "organization_codes u = with_prefix TargetOrganizations_URN (entitlements u)"

definition organization_guids :: "claims \<Rightarrow> error + pyval set" where
  "organization_guids u = with_prefix OrganizationGUID_URN (entitlements u)"

text \<open>
  \<^verbatim>\<open>isinstance([], type(x))\<close> holds exactly when \<open>x\<close> is a list. Otherwise the value
  (the empty string when the key is absent) is split at spaces; only a string has
  \<^verbatim>\<open>split\<close>.
\<close>

definition scopes :: "claims \<Rightarrow> error + pyval set" where
  "scopes u =
     (case attr_get u ''scope'' VNone of
        VList xs \<Rightarrow> py_set (VList xs)
      | _ \<Rightarrow>
          (case attr_get u ''scope'' (VStr '''') of
             VStr s \<Rightarrow> py_set (VList (map VStr (split_space s)))
           | _ \<Rightarrow> Inl AttributeError))"

section \<open>Conditions\<close>

text \<open>
  The subclasses of \<^verbatim>\<open>AbstractCondition\<close> with the state their constructors build.
  \<^verbatim>\<open>OrganizationGUID\<close> asserts that its \<^verbatim>\<open>where\<close> option is one of three strings
  before it stores it, so the field is one of three locations.
\<close>

datatype location = Path | Query | Json

datatype condition =
    TargetOrganizations "int set"
  | SABRoles "string set"
  | Teams "string set"
  | Scopes "pyval set"
  | AnyOf "condition list"
  | AllOf "condition list"
  | OrganizationGUID location pyval

text \<open>
  The fields of the request that the module reads: \<^verbatim>\<open>endpoint\<close> (a string or
  \<^verbatim>\<open>None\<close>), \<^verbatim>\<open>base_url\<close>, \<^verbatim>\<open>method\<close> (the field \<open>request_method\<close>),
  \<^verbatim>\<open>view_args\<close> (a dictionary or \<^verbatim>\<open>None\<close>), \<^verbatim>\<open>args\<close> and \<^verbatim>\<open>json\<close>.
  The last one is a property that the framework computes when it is read, and the
  reading can raise: the field holds the value or the exception of that reading.
\<close>

record request =
  endpoint :: "string option"
  base_url :: string
  request_method :: string
  view_args :: pyval
  args :: "(string \<times> pyval) list"
  json :: "error + pyval"

text \<open>
  The framework is not part of the module; \<^verbatim>\<open>setup.py\<close> asks for
  \<^verbatim>\<open>flask<=1.0.3\<close>. In those versions \<^verbatim>\<open>request.json\<close> is \<^verbatim>\<open>get_json()\<close>: it is
  \<^verbatim>\<open>None\<close> when the mimetype of the request is not JSON, it is the parsed value when
  the data of a JSON request parses (\<^verbatim>\<open>None\<close> for the body \<^verbatim>\<open>null\<close>), and on data
  that does not parse \<^verbatim>\<open>on_json_loading_failed\<close> raises \<^verbatim>\<open>BadRequest\<close>. The
  properties of the module below are stated on the field \<open>json\<close>; \<open>get_json\<close> only
  names the bodies behind the concrete requests.
\<close>

datatype body = Not_JSON | Malformed | Parsed pyval

fun get_json :: "body \<Rightarrow> error + pyval" where
  "get_json Not_JSON = Inr VNone"
| "get_json Malformed = Inl BadRequest"
| "get_json (Parsed v) = Inr v"

subsection \<open>The tables\<close>

definition TargetOrganizations_valid :: "(string \<times> int list) list" where
  "TargetOrganizations_valid =
     [(''institutions'', [1, 2, 3, 4, 9, 14, 18, 19, 22, 23, 24]),
      (''service_providers'', [11, 26]),
      (''international_partners'', [13]),
      (''colo_providers'', [6, 10]),
      (''other'', [5, 7, 8, 11, 12, 15, 16, 17, 20, 21, 25, 27, 28, 29, 30, 31, 32, 100])]"

definition SABRoles_valid :: "(string \<times> string) list" where
  "SABRoles_valid =
     [(''infrabeheerder'', ''Infrabeheerder''),
      (''infraverantwoordelijke'', ''Infraverantwoordelijke''),
      (''Infrabeheerder'', ''Infrabeheerder''),
      (''Infraverantwoordelijke'', ''Infraverantwoordelijke''),
      (''SuperuserRO'', ''SuperuserRO''),
      (''superuserro'', ''SuperuserRO'')]"

definition Teams_valid :: "(string \<times> string) list" where
  "Teams_valid =
     [(''admins'', ''automation-admins''),
      (''automation-admins'', ''automation-admins''),
      (''automation-read-only'', ''automation-read-only''),
      (''customersupport'', ''customersupport''),
      (''fls'', ''noc-fls''),
      (''klantsupport'', ''customersupport''),
      (''lir'', ''network-lir''),
      (''network-changes'', ''network-changes''),
      (''network-lir'', ''network-lir''),
      (''noc'', ''noc-engineers''),
      (''noc-engineers'', ''noc-engineers''),
      (''noc-fls'', ''noc-fls''),
      (''readonly'', ''automation-read-only''),
      (''superuserro'', ''noc_superuserro_team_for_netwerkdashboard''),
      (''support'', ''customersupport''),
      (''ten'', ''ten'')]"

text \<open>\<^verbatim>\<open>self.valid[option]\<close> for an option of any type.\<close>

definition lookup_valid :: "(string \<times> 'a) list \<Rightarrow> pyval \<Rightarrow> error + 'a" where
  "lookup_valid tbl k =
     (if \<not> hashable k then Inl TypeError
      else case k of
             VStr s \<Rightarrow> (case map_of tbl s of None \<Rightarrow> Inl (KeyError k) | Some v \<Rightarrow> Inr v)
           | _ \<Rightarrow> Inl (KeyError k))"

text \<open>The lookups of a comprehension run in order; the first failure is the one raised.\<close>

fun lookup_each :: "(string \<times> 'a) list \<Rightarrow> pyval list \<Rightarrow> error + 'a list" where
  "lookup_each tbl [] = Inr []"
| "lookup_each tbl (k # ks) =
     (case lookup_valid tbl k of
        Inl e \<Rightarrow> Inl e
      | Inr v \<Rightarrow> (case lookup_each tbl ks of Inl e \<Rightarrow> Inl e | Inr vs \<Rightarrow> Inr (v # vs)))"

subsection \<open>Constructors\<close>

text \<open>
  \<^verbatim>\<open>reduce(set.union, (set(self.valid[option]) for option in options))\<close> has no initial
  value: on no option at all it raises a \<^verbatim>\<open>TypeError\<close>.
\<close>

definition TargetOrganizations_init :: "pyval \<Rightarrow> error + condition" where
  "TargetOrganizations_init options =
     (case py_iter options of
        Inl e \<Rightarrow> Inl e
      | Inr opts \<Rightarrow>
          (case lookup_each TargetOrganizations_valid opts of
             Inl e \<Rightarrow> Inl e
           | Inr [] \<Rightarrow> Inl TypeError
           | Inr (g # gs) \<Rightarrow> Inr (TargetOrganizations (foldl (\<union>) (set g) (map set gs)))))"

definition SABRoles_init :: "pyval \<Rightarrow> error + condition" where
  "SABRoles_init options =
     (case py_iter options of
        Inl e \<Rightarrow> Inl e
      | Inr opts \<Rightarrow>
          (case lookup_each SABRoles_valid opts of
             Inl e \<Rightarrow> Inl e
           | Inr vs \<Rightarrow> Inr (SABRoles (set vs))))"

definition Teams_init :: "pyval \<Rightarrow> error + condition" where
  "Teams_init options =
     (case py_iter options of
        Inl e \<Rightarrow> Inl e
      | Inr opts \<Rightarrow>
          (case lookup_each Teams_valid opts of
             Inl e \<Rightarrow> Inl e
           | Inr vs \<Rightarrow> Inr (Teams (set vs))))"

definition Scopes_init :: "pyval \<Rightarrow> error + condition" where
  "Scopes_init options =
     (case py_set options of Inl e \<Rightarrow> Inl e | Inr S \<Rightarrow> Inr (Scopes S))"

definition location_of :: "pyval \<Rightarrow> location option" where
  "location_of w =
     (if w = VStr ''path'' then Some Path
      else if w = VStr ''query'' then Some Query
      else if w = VStr ''json'' then Some Json
      else None)"

definition OrganizationGUID_init :: "pyval \<Rightarrow> error + condition" where
  "OrganizationGUID_init options =
     (case subscript options ''where'' of
        Inl e \<Rightarrow> Inl e
      | Inr w \<Rightarrow>
          if \<not> hashable w then Inl TypeError
          else (case location_of w of
                  None \<Rightarrow> Inl AssertionError
                | Some loc \<Rightarrow>
                    (case subscript options ''parameter'' of
                       Inl e \<Rightarrow> Inl e
                     | Inr param \<Rightarrow> Inr (OrganizationGUID loc param))))"

text \<open>
  \<^verbatim>\<open>AbstractCondition.concrete_condition(name, options)\<close> looks the class up by name
  among the seven subclasses and calls its constructor. \<^verbatim>\<open>AnyOf\<close> and \<^verbatim>\<open>AllOf\<close>
  build one condition for every item of their options, in order.
\<close>

function concrete_condition :: "string \<Rightarrow> pyval \<Rightarrow> error + condition"
  and conditions_of :: "(string \<times> pyval) list \<Rightarrow> error + condition list" where
  "concrete_condition name options =
     (if name = ''TargetOrganizations'' then TargetOrganizations_init options
      else if name = ''SABRoles'' then SABRoles_init options
      else if name = ''Teams'' then Teams_init options
      else if name = ''Scopes'' then Scopes_init options
      else if name = ''AnyOf'' then
        (case options of
           VDict d \<Rightarrow> (case conditions_of d of Inl e \<Rightarrow> Inl e | Inr cs \<Rightarrow> Inr (AnyOf cs))
         | _ \<Rightarrow> Inl AttributeError)
      else if name = ''AllOf'' then
        (case options of
           VDict d \<Rightarrow> (case conditions_of d of Inl e \<Rightarrow> Inl e | Inr cs \<Rightarrow> Inr (AllOf cs))
         | _ \<Rightarrow> Inl AttributeError)
      else if name = ''OrganizationGUID'' then OrganizationGUID_init options
      else Inl (KeyError (VStr name)))"
| "conditions_of [] = Inr []"
| "conditions_of (item # rest) =
     (case concrete_condition (fst item) (snd item) of
        Inl e \<Rightarrow> Inl e
      | Inr c \<Rightarrow> (case conditions_of rest of Inl e \<Rightarrow> Inl e | Inr cs \<Rightarrow> Inr (c # cs)))"
  by pat_completeness auto
termination
  by (relation "measure (\<lambda>x. case x of
          Inl (name, options) \<Rightarrow> 2 * size options + 1
        | Inr d \<Rightarrow> 2 * size (VDict d))") auto

subsection \<open>Tests\<close>

text \<open>\<^verbatim>\<open>bool(attribute & S)\<close>, where reading the attribute may raise.\<close>

definition intersects :: "error + pyval set \<Rightarrow> pyval set \<Rightarrow> error + bool" where
  "intersects attribute S =
     (case attribute of Inl e \<Rightarrow> Inl e | Inr A \<Rightarrow> Inr (A \<inter> S \<noteq> {}))"

text \<open>
  \<^verbatim>\<open>value in user_attributes.organization_guids\<close>: the value is computed first, then
  the attribute is read, then the membership is tested.
\<close>

definition in_guids :: "error + pyval \<Rightarrow> claims \<Rightarrow> error + bool" where
  "in_guids value u =
     (case value of
        Inl e \<Rightarrow> Inl e
      | Inr v \<Rightarrow> (case organization_guids u of Inl e \<Rightarrow> Inl e | Inr G \<Rightarrow> in_set v G))"

text \<open>
  \<^verbatim>\<open>True in (c.test(...) for c in cs)\<close> runs the tests in order and stops at the first
  that returns \<^verbatim>\<open>True\<close>; \<^verbatim>\<open>False not in (...)\<close> stops at the first that returns
  \<^verbatim>\<open>False\<close>. A test that raises ends the evaluation.
\<close>

fun test :: "condition \<Rightarrow> claims \<Rightarrow> request \<Rightarrow> error + bool"
  and true_in :: "condition list \<Rightarrow> claims \<Rightarrow> request \<Rightarrow> error + bool"
  and false_not_in :: "condition list \<Rightarrow> claims \<Rightarrow> request \<Rightarrow> error + bool" where
  "test (TargetOrganizations S) u r = intersects (organization_codes u) (VInt ` S)"
| "test (SABRoles S) u r = intersects (roles u) (VStr ` S)"
| "test (Teams S) u r = intersects (teams u) (VStr ` S)"
| "test (Scopes S) u r = intersects (scopes u) S"
| "test (AnyOf cs) u r = true_in cs u r"
| "test (AllOf cs) u r = false_not_in cs u r"
| "test (OrganizationGUID loc param) u r =
     (case loc of
        Path \<Rightarrow> in_guids (py_get (view_args r) param) u
      | Query \<Rightarrow> in_guids (dict_get (args r) param) u
      | Json \<Rightarrow>
          (case json r of
             Inl e \<Rightarrow> Inl e
           | Inr j \<Rightarrow> if j = VNone then Inr True else in_guids (py_get j param) u))"
| "true_in [] u r = Inr False"
| "true_in (c # cs) u r =
     (case test c u r of
        Inl e \<Rightarrow> Inl e
      | Inr b \<Rightarrow> if b then Inr True else true_in cs u r)"
| "false_not_in [] u r = Inr True"
| "false_not_in (c # cs) u r =
     (case test c u r of
        Inl e \<Rightarrow> Inl e
      | Inr b \<Rightarrow> if b then false_not_in cs u r else Inr False)"

subsection \<open>Descriptions\<close>

text \<open>
  \<^verbatim>\<open>__str__\<close> formats sets and option values into its text. Python prints the
  elements of a set in the order of their hashes, which the language does not fix, so
  the two printers are parameters: \<open>fmt_val\<close> for a value, \<open>fmt_set\<close> for a set.
\<close>

record formatter =
  fmt_val :: "pyval \<Rightarrow> string"
  fmt_set :: "pyval set \<Rightarrow> string"

definition newline :: string where
  "newline = [CHR 0x0A]"

text \<open>\<^verbatim>\<open>"\n".join(xs)\<close>.\<close>

fun join_lines :: "string list \<Rightarrow> string" where
  "join_lines [] = []"
| "join_lines [x] = x"
| "join_lines (x # y # ys) = x @ newline @ join_lines (y # ys)"

definition where_name :: "location \<Rightarrow> string" where
  "where_name loc = (case loc of Path \<Rightarrow> ''path'' | Query \<Rightarrow> ''query'' | Json \<Rightarrow> ''json'')"

fun str_of :: "formatter \<Rightarrow> condition \<Rightarrow> string" where
  "str_of F (TargetOrganizations S) =
     ''CODE in '' @ TargetOrganizations_URN
       @ ''CODE in eduperson_entitlements should be one of ''
       @ fmt_val F (VList (map VInt (sorted_list_of_set S)))"
| "str_of F (SABRoles S) =
     ''ROLE in '' @ SABRoles_URN
       @ ''ROLE in eduperson_entitlements should be one of '' @ fmt_set F (VStr ` S)"
| "str_of F (Teams S) =
     ''TEAM in '' @ Teams_URN @ ''TEAM should be one of '' @ fmt_set F (VStr ` S)"
| "str_of F (Scopes S) = ''Scope must be one of the following: '' @ fmt_set F S"
| "str_of F (AnyOf cs) =
     ''Any of the following conditions should apply:'' @ newline
       @ join_lines (map (str_of F) cs)"
| "str_of F (AllOf cs) =
     ''All of the following conditions should apply:'' @ newline
       @ join_lines (map (str_of F) cs)"
| "str_of F (OrganizationGUID loc param) =
     ''Parameter '' @ fmt_val F param @ '' in the request '' @ where_name loc
       @ '' should be in your organization GUID ('' @ [CHR 0x27] @ OrganizationGUID_URN
       @ [CHR 0x27] @ '')''"

section \<open>AccessControl\<close>

text \<open>A rule is the triple \<^verbatim>\<open>(endpoint, http_methods, checker)\<close>.\<close>

type_synonym rule = "pyval \<times> pyval \<times> condition"

definition VALID_HTTP_METHODS :: "string set" where
  "VALID_HTTP_METHODS = {''*'', ''DELETE'', ''PATCH'', ''GET'', ''HEAD'', ''POST'', ''PUT''}"

subsection \<open>The constructor\<close>

text \<open>
  The loop over the listed methods raises at the first method that is not in
  \<^verbatim>\<open>VALID_HTTP_METHODS\<close>; testing membership of an unhashable value is a
  \<^verbatim>\<open>TypeError\<close>.
\<close>

fun check_methods :: "nat \<Rightarrow> pyval \<Rightarrow> pyval list \<Rightarrow> error + unit" where
  "check_methods counter definition [] = Inr ()"
| "check_methods counter definition (http_method # rest) =
     (case in_set http_method (VStr ` VALID_HTTP_METHODS) of
        Inl e \<Rightarrow> Inl e
      | Inr b \<Rightarrow>
          if \<not> b then
            Inl (InvalidRuleDefinition (Not_a_valid_HTTP_method http_method) counter definition)
          else check_methods counter definition rest)"

text \<open>
  The two \<^verbatim>\<open>except\<close> clauses around the construction of a checker: a
  \<^verbatim>\<open>KeyError\<close> and an \<^verbatim>\<open>AssertionError\<close> become an
  \<^verbatim>\<open>InvalidRuleDefinition\<close>; any other exception passes through.
\<close>

definition reraise :: "nat \<Rightarrow> pyval \<Rightarrow> error + 'a \<Rightarrow> error + 'a" where
  "reraise counter definition result =
     (case result of
        Inl (KeyError k) \<Rightarrow> Inl (InvalidRuleDefinition (Missing_option k) counter definition)
      | Inl AssertionError \<Rightarrow>
          Inl (InvalidRuleDefinition Where_option_should_be_one_of_valid counter definition)
      | Inl e \<Rightarrow> Inl e
      | Inr c \<Rightarrow> Inr c)"

text \<open>\<^verbatim>\<open>AllOf(conditions)\<close>.\<close>

definition AllOf_init :: "pyval \<Rightarrow> error + condition" where
  "AllOf_init options = concrete_condition ''AllOf'' options"

text \<open>
  \<^verbatim>\<open>for name, options in conditions.items(): checker = ...\<close>. The variable
  \<^verbatim>\<open>checker\<close> is a local of the constructor: it keeps its value when the loop body
  does not run.
\<close>

fun build_items :: "nat \<Rightarrow> pyval \<Rightarrow> condition option \<Rightarrow> (string \<times> pyval) list
    \<Rightarrow> error + condition option" where
  "build_items counter definition checker [] = Inr checker"
| "build_items counter definition checker (item # rest) =
     (case reraise counter definition (concrete_condition (fst item) (snd item)) of
        Inl e \<Rightarrow> Inl e
      | Inr c \<Rightarrow> build_items counter definition (Some c) rest)"

text \<open>
  One turn of the loop over the rule definitions: the rule it appends and the value
  of \<^verbatim>\<open>checker\<close> afterwards. Reading \<^verbatim>\<open>checker\<close> before any assignment is an
  \<^verbatim>\<open>UnboundLocalError\<close>.
\<close>

definition build_checker :: "nat \<Rightarrow> pyval \<Rightarrow> condition option \<Rightarrow> pyval
    \<Rightarrow> error + condition option" where
  "build_checker counter definition checker conditions =
     (case py_len conditions of
        Inl e \<Rightarrow> Inl e
      | Inr n \<Rightarrow>
          if n > 1 then
            (case reraise counter definition (AllOf_init conditions) of
               Inl e \<Rightarrow> Inl e
             | Inr c \<Rightarrow> Inr (Some c))
          else
            (case py_items conditions of
               Inl e \<Rightarrow> Inl e
             | Inr items \<Rightarrow> build_items counter definition checker items))"

definition compile_definition :: "nat \<Rightarrow> condition option \<Rightarrow> pyval
    \<Rightarrow> error + rule \<times> condition option" where
  "compile_definition counter checker definition =
     (case subscript definition ''endpoint'' of
        Inl (KeyError k) \<Rightarrow> Inl (InvalidRuleDefinition Missing_endpoint counter definition)
      | Inl e \<Rightarrow> Inl e
      | Inr endpoint_pattern \<Rightarrow>
     (case subscript definition ''methods'' of
        Inl (KeyError k) \<Rightarrow>
          Inl (InvalidRuleDefinition Missing_HTTP_methods counter definition)
      | Inl e \<Rightarrow> Inl e
      | Inr http_methods \<Rightarrow>
     (case py_iter http_methods of
        Inl e \<Rightarrow> Inl e
      | Inr ms \<Rightarrow>
     (case check_methods counter definition ms of
        Inl e \<Rightarrow> Inl e
      | Inr _ \<Rightarrow>
     (case subscript definition ''conditions'' of
        Inl (KeyError k) \<Rightarrow>
          Inl (InvalidRuleDefinition Missing_conditions_or_options counter definition)
      | Inl e \<Rightarrow> Inl e
      | Inr conditions \<Rightarrow>
     (case build_checker counter definition checker conditions of
        Inl e \<Rightarrow> Inl e
      | Inr None \<Rightarrow> Inl UnboundLocalError
      | Inr (Some c) \<Rightarrow> Inr ((endpoint_pattern, http_methods, c), Some c)))))))"

text \<open>
  The loop \<^verbatim>\<open>for counter, definition in enumerate(...)\<close>; the rules come out in the
  order in which the source appends them.
\<close>

fun compile_rules :: "nat \<Rightarrow> condition option \<Rightarrow> pyval list \<Rightarrow> error + rule list" where
  "compile_rules counter checker [] = Inr []"
| "compile_rules counter checker (definition # rest) =
     (case compile_definition counter checker definition of
        Inl e \<Rightarrow> Inl e
      | Inr (rule, checker') \<Rightarrow>
          (case compile_rules (Suc counter) checker' rest of
             Inl e \<Rightarrow> Inl e
           | Inr rules \<Rightarrow> Inr (rule # rules)))"

text \<open>
  \<^verbatim>\<open>AccessControl.__init__(security_definitions)\<close>: the definitions are \<^verbatim>\<open>None\<close> or
  a \<^verbatim>\<open>Dict[str, Any]\<close>. The result is \<^verbatim>\<open>self.rules\<close>, or the exception that ends
  the construction.
\<close>

definition AccessControl_init :: "(string \<times> pyval) list option \<Rightarrow> error + rule list" where
  "AccessControl_init security_definitions =
     (case security_definitions of
        None \<Rightarrow> Inr []
      | Some d \<Rightarrow>
          (case map_of d ''rules'' of
             None \<Rightarrow> Inr []
           | Some definitions \<Rightarrow>
               (case py_iter definitions of
                  Inl e \<Rightarrow> Inl e
                | Inr ds \<Rightarrow> compile_rules 0 None ds)))"

subsection \<open>What the constructor asks of a rule definition\<close>

text \<open>The listed methods can be iterated and each of them is a valid HTTP method.\<close>

definition methods_valid :: "pyval \<Rightarrow> bool" where
  "methods_valid http_methods =
     (case py_iter http_methods of
        Inl e \<Rightarrow> False
      | Inr ms \<Rightarrow> set ms \<subseteq> VStr ` VALID_HTTP_METHODS)"

text \<open>
  A definition can be subscripted with the keys \<^verbatim>\<open>endpoint\<close>, \<^verbatim>\<open>methods\<close> and
  \<^verbatim>\<open>conditions\<close>, and its methods are valid.
\<close>

definition well_formed :: "pyval \<Rightarrow> bool" where
  "well_formed definition =
     ((case subscript definition ''endpoint'' of Inl e \<Rightarrow> False | Inr v \<Rightarrow> True)
      \<and> (case subscript definition ''methods'' of Inl e \<Rightarrow> False | Inr v \<Rightarrow> methods_valid v)
      \<and> (case subscript definition ''conditions'' of Inl e \<Rightarrow> False | Inr v \<Rightarrow> True))"

text \<open>
  A dictionary that lacks \<^verbatim>\<open>endpoint\<close>, or lacks \<^verbatim>\<open>methods\<close>, or whose methods are a
  list of hashable values that holds an invalid method or is followed by no
  \<^verbatim>\<open>conditions\<close>.
\<close>

definition defective :: "(string \<times> pyval) list \<Rightarrow> bool" where
  "defective d =
     (map_of d ''endpoint'' = None
      \<or> (case map_of d ''methods'' of
            None \<Rightarrow> True
          | Some (VList ms) \<Rightarrow>
              list_all hashable ms
              \<and> (\<not> set ms \<subseteq> VStr ` VALID_HTTP_METHODS \<or> map_of d ''conditions'' = None)
          | Some v \<Rightarrow> False))"



subsection \<open>The decision\<close>

text \<open>
  \<^verbatim>\<open>is_allowed\<close> returns (\<open>Allow\<close>) or raises \<^verbatim>\<open>Forbidden(reason)\<close> (\<open>Deny\<close>);
  any other exception is an error of the evaluation.
\<close>

datatype verdict = Allow | Deny string

text \<open>
  \<^verbatim>\<open>fnmatch.fnmatch\<close> belongs to the standard library; its matching of two strings
  is the parameter \<open>glob\<close>. A pattern that is not a string is a \<^verbatim>\<open>TypeError\<close>.
\<close>

definition fnmatch :: "(string \<Rightarrow> string \<Rightarrow> bool) \<Rightarrow> string \<Rightarrow> pyval \<Rightarrow> error + bool" where
  "fnmatch glob name pat = (case pat of VStr p \<Rightarrow> Inr (glob name p) | _ \<Rightarrow> Inl TypeError)"

text \<open>
  On a pattern without a bracket expression \<^verbatim>\<open>fnmatch\<close> is this matching (on a
  system whose file names are case-sensitive): \<^verbatim>\<open>*\<close> stands for any run of
  characters, \<^verbatim>\<open>?\<close> for one character, any other character for itself. The
  concrete evaluations below use it for \<open>glob\<close>.
\<close>

fun wildcard :: "string \<Rightarrow> string \<Rightarrow> bool" where
  "wildcard [] [] = True"
| "wildcard (c # cs) [] = False"
| "wildcard [] (p # ps) = (p = CHR ''*'' \<and> wildcard [] ps)"
| "wildcard (c # cs) (p # ps) =
     (if p = CHR ''*'' then wildcard (c # cs) ps \<or> wildcard cs (p # ps)
      else (p = CHR ''?'' \<or> p = c) \<and> wildcard cs ps)"

text \<open>\<^verbatim>\<open>"*" in http_methods or method in http_methods\<close>.\<close>

definition accepts :: "string \<Rightarrow> pyval \<Rightarrow> error + bool" where
  "accepts m http_methods =
     (case str_in ''*'' http_methods of
        Inl e \<Rightarrow> Inl e
      | Inr b \<Rightarrow> if b then Inr True else str_in m http_methods)"

text \<open>Whether one rule is a match: its pattern first, then its methods.\<close>

definition rule_matches :: "(string \<Rightarrow> string \<Rightarrow> bool) \<Rightarrow> string \<Rightarrow> string \<Rightarrow> rule
    \<Rightarrow> error + bool" where
  "rule_matches glob ep m rule =
     (case rule of (endpoint_pattern, http_methods, checker) \<Rightarrow>
        (case fnmatch glob ep endpoint_pattern of
           Inl e \<Rightarrow> Inl e
         | Inr g \<Rightarrow> if g then accepts m http_methods else Inr False))"

text \<open>The loop that collects the checkers of the matching rules, in the order of the rules.\<close>

fun matches :: "(string \<Rightarrow> string \<Rightarrow> bool) \<Rightarrow> string \<Rightarrow> string \<Rightarrow> rule list
    \<Rightarrow> error + condition list" where
  "matches glob ep m [] = Inr []"
| "matches glob ep m (rule # rules) =
     (case rule_matches glob ep m rule of
        Inl e \<Rightarrow> Inl e
      | Inr a \<Rightarrow>
          (case matches glob ep m rules of
             Inl e \<Rightarrow> Inl e
           | Inr cs \<Rightarrow> Inr (if a then snd (snd rule) # cs else cs)))"

text \<open>\<^verbatim>\<open>current_request.endpoint or current_request.base_url\<close>.\<close>

definition endpoint_of :: "request \<Rightarrow> string" where
  "endpoint_of r =
     (case endpoint r of None \<Rightarrow> base_url r | Some e \<Rightarrow> if e = [] then base_url r else e)"

definition is_allowed :: "(string \<Rightarrow> string \<Rightarrow> bool) \<Rightarrow> formatter \<Rightarrow> rule list \<Rightarrow> claims
    \<Rightarrow> request \<Rightarrow> error + verdict" where
  "is_allowed glob F rules current_user current_request =
     (if rules = [] then Inr (Deny ''No security rules found'')
      else
        (case matches glob (endpoint_of current_request) (request_method current_request) rules of
           Inl e \<Rightarrow> Inl e
         | Inr ms \<Rightarrow>
             if length ms > 1 then
               (case true_in ms current_user current_request of
                  Inl e \<Rightarrow> Inl e
                | Inr b \<Rightarrow>
                    if b then Inr Allow else Inr (Deny (join_lines (map (str_of F) ms))))
             else if length ms = 1 then
               (case test (hd ms) current_user current_request of
                  Inl e \<Rightarrow> Inl e
                | Inr b \<Rightarrow> if b then Inr Allow else Inr (Deny (str_of F (hd ms))))
             else
               Inr (Deny (''No rules matched endpoint '' @ endpoint_of current_request
                            @ '' and HTTP method '' @ request_method current_request))))"

text \<open>
  What a caller observes of a decision when the reason of a denial is left aside:
  the exception that escaped, or whether the request was allowed.
\<close>

definition allowed :: "error + verdict \<Rightarrow> error + bool" where
  "allowed result = (case result of Inl e \<Rightarrow> Inl e | Inr v \<Rightarrow> Inr (v = Allow))"

section \<open>Example data\<close>

text \<open>
  A printer, two requests and a user for the concrete evaluations below: a \<^verbatim>\<open>GET\<close>
  without a body, a \<^verbatim>\<open>POST\<close> whose body is the JSON array \<^verbatim>\<open>[]\<close>, and a user
  whose only claim is the scope \<^verbatim>\<open>read\<close>.
\<close>

abbreviation plain :: formatter where
  "plain \<equiv> \<lparr>fmt_val = \<lambda>v. ''v'', fmt_set = \<lambda>S. ''S''\<rparr>"

abbreviation get_orders :: request where
  "get_orders \<equiv>
     \<lparr>endpoint = Some ''orders.get'', base_url = ''http://localhost/orders'',
      request_method = ''GET'', view_args = VDict [], args = [], json = get_json Not_JSON\<rparr>"

abbreviation post_array :: request where
  "post_array \<equiv>
     \<lparr>endpoint = Some ''orders.update'', base_url = ''http://localhost/orders'',
      request_method = ''POST'', view_args = VDict [], args = [],
      json = get_json (Parsed (VList []))\<rparr>"

abbreviation reader :: claims where
  "reader \<equiv> [(''scope'', VStr ''read'')]"

text \<open>
  Two rules that both match \<^verbatim>\<open>GET orders.get\<close>, a user without any of their scopes,
  a user with the organization GUID \<^verbatim>\<open>abc\<close> and a request whose JSON body names it.
\<close>

abbreviation two_rules :: "rule list" where
  "two_rules \<equiv>
     [(VStr ''orders.*'', VList [VStr ''GET''], Scopes {VStr ''write''}),
      (VStr ''*'', VList [VStr ''*''], Scopes {VStr ''read''})]"

abbreviation stranger :: claims where
  "stranger \<equiv> [(''scope'', VStr ''none'')]"

abbreviation customer :: claims where
  "customer \<equiv>
     [(''eduperson_entitlement'',
       VList [VStr ''urn:mace:surfnet.nl:surfnet.nl:sab:organizationGUID:abc''])]"

abbreviation post_customer :: request where
  "post_customer \<equiv>
     \<lparr>endpoint = Some ''orders.update'', base_url = ''http://localhost/orders'',
      request_method = ''POST'', view_args = VDict [], args = [],
      json = get_json (Parsed (VDict [(''customerId'', VStr ''abc'')]))\<rparr>"

text \<open>A user whose entitlement carries the organization code \<^verbatim>\<open>1\<close>.\<close>

abbreviation member :: claims where
  "member \<equiv>
     [(''eduperson_entitlement'',
       VList [VStr ''urn:mace:surfnet.nl:surfnet.nl:sab:organizationCode:1''])]"

text \<open>A rule definition that compiles, and one without the key \<^verbatim>\<open>endpoint\<close>.\<close>

abbreviation orders_definition :: pyval where
  "orders_definition \<equiv>
     VDict [(''endpoint'', VStr ''orders.*''), (''methods'', VList [VStr ''GET'']),
            (''conditions'', VDict [(''Scopes'', VList [VStr ''read''])])]"

abbreviation no_endpoint :: "(string \<times> pyval) list" where
  "no_endpoint \<equiv>
     [(''methods'', VList [VStr ''GET'']),
      (''conditions'', VDict [(''Scopes'', VList [VStr ''read''])])]"

text \<open>A JSON request whose body does not parse, and one whose body is \<^verbatim>\<open>null\<close>.\<close>

abbreviation post_malformed :: request where
  "post_malformed \<equiv>
     \<lparr>endpoint = Some ''orders.update'', base_url = ''http://localhost/orders'',
      request_method = ''POST'', view_args = VDict [], args = [], json = get_json Malformed\<rparr>"

abbreviation post_null :: request where
  "post_null \<equiv>
     \<lparr>endpoint = Some ''orders.update'', base_url = ''http://localhost/orders'',
      request_method = ''POST'', view_args = VDict [], args = [],
      json = get_json (Parsed VNone)\<rparr>"



section \<open>Properties of the decision\<close>

text \<open>
  C8. With no rules at all, \<open>is_allowed\<close> denies every request of every user, with
  the reason "No security rules found".
\<close>

theorem is_allowed_no_rules:
  "is_allowed glob F [] u r = Inr (Deny ''No security rules found'')"
  by (simp add: is_allowed_def)

text \<open>
  C10. Security definitions that are \<^verbatim>\<open>None\<close>, or a dictionary without the key
  \<^verbatim>\<open>rules\<close>, construct without an error and give the empty list of rules, on which
  every decision is the denial "No security rules found".
\<close>

theorem init_without_rules:
  assumes "sd = None \<or> (\<exists>d. sd = Some d \<and> ''rules'' \<notin> fst ` set d)"
  shows "case AccessControl_init sd of
           Inl e \<Rightarrow> False
         | Inr rules \<Rightarrow>
             rules = [] \<and> is_allowed glob F rules u r = Inr (Deny ''No security rules found'')"
  using assms
  by (auto simp: AccessControl_init_def is_allowed_def map_of_eq_None_iff[symmetric]
      split: option.splits)

theorem init_without_rules_witness:
  "AccessControl_init None = Inr []
   \<and> AccessControl_init (Some [(''version'', VInt 1)]) = Inr []
   \<and> is_allowed wildcard plain [] reader get_orders = Inr (Deny ''No security rules found'')"
proof -
  have none: "(None :: (string \<times> pyval) list option) = None
      \<or> (\<exists>d. None = Some d \<and> ''rules'' \<notin> fst ` set d)"
    by simp
  have norules: "Some [(''version'', VInt 1)] = None
      \<or> (\<exists>d. Some [(''version'', VInt 1)] = Some d \<and> ''rules'' \<notin> fst ` set d)"
    by simp
  show ?thesis
    using init_without_rules [OF none, of wildcard plain reader get_orders]
      init_without_rules [OF norules, of wildcard plain reader get_orders]
    by (simp split: sum.splits)
qed


section \<open>Properties of the conditions\<close>

subsection \<open>The combinators\<close>

lemma true_in_True_iff:
  "true_in cs u r = Inr True \<longleftrightarrow>
     (\<exists>i<length cs. test (cs ! i) u r = Inr True \<and> (\<forall>j<i. test (cs ! j) u r = Inr False))"
proof (induction cs)
  case Nil
  then show ?case by simp
next
  case (Cons c cs)
  show ?case
  proof (cases "test c u r")
    case (Inl e)
    then show ?thesis
      by (auto simp: nth_Cons split: nat.splits)
  next
    case (Inr b)
    show ?thesis
    proof (cases b)
      case True
      with Inr show ?thesis by auto
    next
      case False
      have "(\<exists>i<length (c # cs). test ((c # cs) ! i) u r = Inr True
              \<and> (\<forall>j<i. test ((c # cs) ! j) u r = Inr False))
          \<longleftrightarrow> (\<exists>i<length cs. test (cs ! i) u r = Inr True
              \<and> (\<forall>j<i. test (cs ! j) u r = Inr False))"
        (is "?L \<longleftrightarrow> ?R")
      proof
        assume ?L
        then obtain i where i: "i < length (c # cs)" "test ((c # cs) ! i) u r = Inr True"
          "\<forall>j<i. test ((c # cs) ! j) u r = Inr False" by blast
        with Inr False obtain k where k: "i = Suc k" by (cases i) auto
        have "\<forall>j<k. test (cs ! j) u r = Inr False"
        proof (intro allI impI)
          fix j assume "j < k"
          then have "Suc j < i" using k by simp
          with i(3) have "test ((c # cs) ! Suc j) u r = Inr False" by blast
          then show "test (cs ! j) u r = Inr False" by simp
        qed
        with i k show ?R by auto
      next
        assume ?R
        then obtain i where i: "i < length cs" "test (cs ! i) u r = Inr True"
          "\<forall>j<i. test (cs ! j) u r = Inr False" by blast
        have "\<forall>j<Suc i. test ((c # cs) ! j) u r = Inr False"
          using i(3) Inr False by (auto simp: nth_Cons split: nat.splits)
        with i show ?L by (intro exI[of _ "Suc i"]) auto
      qed
      with Inr False Cons.IH show ?thesis by simp
    qed
  qed
qed

lemma false_not_in_True_iff:
  "false_not_in cs u r = Inr True \<longleftrightarrow> (\<forall>c\<in>set cs. test c u r = Inr True)"
  by (induction cs) (auto split: sum.splits)

lemma true_in_no_raise:
  "\<forall>c\<in>set cs. \<exists>b. test c u r = Inr b \<Longrightarrow>
   true_in cs u r = Inr (\<exists>c\<in>set cs. test c u r = Inr True)"
  by (induction cs) (auto split: sum.splits)

lemma false_not_in_no_raise:
  "\<forall>c\<in>set cs. \<exists>b. test c u r = Inr b \<Longrightarrow>
   false_not_in cs u r = Inr (\<not> (\<exists>c\<in>set cs. test c u r = Inr False))"
  by (induction cs) (auto split: sum.splits)

lemma true_in_Inl_iff:
  "true_in cs u r = Inl e \<longleftrightarrow>
     (\<exists>i<length cs. test (cs ! i) u r = Inl e \<and> (\<forall>j<i. test (cs ! j) u r = Inr False))"
proof (induction cs)
  case Nil
  then show ?case by simp
next
  case (Cons c cs)
  show ?case
  proof (cases "test c u r")
    case (Inl e')
    then show ?thesis by (auto simp: Ex_less_Suc2 All_less_Suc2)
  next
    case (Inr b)
    with Cons show ?thesis by (cases b) (simp_all add: Ex_less_Suc2 All_less_Suc2)
  qed
qed

lemma true_in_False_iff:
  "true_in cs u r = Inr False \<longleftrightarrow> (\<forall>c\<in>set cs. test c u r = Inr False)"
  by (induction cs) (auto split: sum.splits)

lemma false_not_in_Inl_iff:
  "false_not_in cs u r = Inl e \<longleftrightarrow>
     (\<exists>i<length cs. test (cs ! i) u r = Inl e \<and> (\<forall>j<i. test (cs ! j) u r = Inr True))"
proof (induction cs)
  case Nil
  then show ?case by simp
next
  case (Cons c cs)
  show ?case
  proof (cases "test c u r")
    case (Inl e')
    then show ?thesis by (auto simp: Ex_less_Suc2 All_less_Suc2)
  next
    case (Inr b)
    with Cons show ?thesis by (cases b) (simp_all add: Ex_less_Suc2 All_less_Suc2)
  qed
qed

lemma false_not_in_False_iff:
  "false_not_in cs u r = Inr False \<longleftrightarrow>
     (\<exists>i<length cs. test (cs ! i) u r = Inr False \<and> (\<forall>j<i. test (cs ! j) u r = Inr True))"
proof (induction cs)
  case Nil
  then show ?case by simp
next
  case (Cons c cs)
  show ?case
  proof (cases "test c u r")
    case (Inl e')
    then show ?thesis by (auto simp: Ex_less_Suc2 All_less_Suc2)
  next
    case (Inr b)
    with Cons show ?thesis by (cases b) (simp_all add: Ex_less_Suc2 All_less_Suc2)
  qed
qed

lemma scopes_reader: "scopes reader = Inr {VStr ''read''}"
  by (simp add: scopes_def attr_get_def py_set_def)

text \<open>
  C6, as the code has it. The children are tested in order, and the first child that
  decides ends the test. \<open>AnyOf\<close> returns \<^verbatim>\<open>True\<close> exactly when some child returns
  \<^verbatim>\<open>True\<close> and every child before it has returned \<^verbatim>\<open>False\<close>; it returns
  \<^verbatim>\<open>False\<close> exactly when every child returns \<^verbatim>\<open>False\<close>; and it raises an exception
  exactly when some child raises that exception and every child before it has returned
  \<^verbatim>\<open>False\<close>. \<open>AllOf\<close> returns \<^verbatim>\<open>True\<close> exactly when every child returns
  \<^verbatim>\<open>True\<close>; it returns \<^verbatim>\<open>False\<close> exactly when some child returns \<^verbatim>\<open>False\<close> and
  every child before it has returned \<^verbatim>\<open>True\<close>; and it raises an exception exactly
  when some child raises that exception and every child before it has returned
  \<^verbatim>\<open>True\<close>. When no child raises, \<open>AnyOf\<close> returns whether at least one child
  returns \<^verbatim>\<open>True\<close> and \<open>AllOf\<close> whether no child returns \<^verbatim>\<open>False\<close>. Without
  children \<open>AnyOf\<close> returns \<^verbatim>\<open>False\<close> and \<open>AllOf\<close> returns \<^verbatim>\<open>True\<close>.
\<close>

theorem AnyOf_AllOf_test:
  "(test (AnyOf cs) u r = Inr True \<longleftrightarrow>
      (\<exists>i<length cs. test (cs ! i) u r = Inr True \<and> (\<forall>j<i. test (cs ! j) u r = Inr False)))
   \<and> (test (AllOf cs) u r = Inr True \<longleftrightarrow> (\<forall>c\<in>set cs. test c u r = Inr True))
   \<and> ((\<forall>c\<in>set cs. \<exists>b. test c u r = Inr b) \<longrightarrow>
        test (AnyOf cs) u r = Inr (\<exists>c\<in>set cs. test c u r = Inr True)
        \<and> test (AllOf cs) u r = Inr (\<not> (\<exists>c\<in>set cs. test c u r = Inr False)))
   \<and> test (AnyOf []) u r = Inr False
   \<and> test (AllOf []) u r = Inr True
   \<and> (test (AnyOf cs) u r = Inr False \<longleftrightarrow> (\<forall>c\<in>set cs. test c u r = Inr False))
   \<and> (test (AllOf cs) u r = Inr False \<longleftrightarrow>
        (\<exists>i<length cs. test (cs ! i) u r = Inr False \<and> (\<forall>j<i. test (cs ! j) u r = Inr True)))
   \<and> (\<forall>e. test (AnyOf cs) u r = Inl e \<longleftrightarrow>
        (\<exists>i<length cs. test (cs ! i) u r = Inl e \<and> (\<forall>j<i. test (cs ! j) u r = Inr False)))
   \<and> (\<forall>e. test (AllOf cs) u r = Inl e \<longleftrightarrow>
        (\<exists>i<length cs. test (cs ! i) u r = Inl e \<and> (\<forall>j<i. test (cs ! j) u r = Inr True)))"
proof -
  have any: "test (AnyOf cs) u r = true_in cs u r"
    and all: "test (AllOf cs) u r = false_not_in cs u r"
    by simp_all
  have no_raise: "(\<forall>c\<in>set cs. \<exists>b. test c u r = Inr b) \<longrightarrow>
        test (AnyOf cs) u r = Inr (\<exists>c\<in>set cs. test c u r = Inr True)
        \<and> test (AllOf cs) u r = Inr (\<not> (\<exists>c\<in>set cs. test c u r = Inr False))"
    using true_in_no_raise [of cs u r] false_not_in_no_raise [of cs u r]
    unfolding any all by blast
  have empty: "test (AnyOf []) u r = Inr False" "test (AllOf []) u r = Inr True"
    by simp_all
  show ?thesis
    unfolding any all
    using no_raise [unfolded any all] empty
    by (intro conjI allI true_in_True_iff false_not_in_True_iff true_in_False_iff
        false_not_in_False_iff true_in_Inl_iff false_not_in_Inl_iff) simp_all
qed

theorem AnyOf_AllOf_test_witness:
  "test (Scopes {VStr ''write''}) reader get_orders = Inr False
   \<and> test (Scopes {VStr ''read''}) reader get_orders = Inr True
   \<and> test (AnyOf [Scopes {VStr ''write''}, Scopes {VStr ''read''}]) reader get_orders = Inr True
   \<and> test (AllOf [Scopes {VStr ''write''}, Scopes {VStr ''read''}]) reader get_orders = Inr False
   \<and> test (AllOf [Scopes {VStr ''read''}, OrganizationGUID Json (VStr ''customerId'')])
        reader post_array = Inl AttributeError"
proof -
  have children: "\<forall>c\<in>set [Scopes {VStr ''write''}, Scopes {VStr ''read''}].
      \<exists>b. test c reader get_orders = Inr b"
    by (auto simp: scopes_reader intersects_def)
  have raising: "\<exists>i<length [Scopes {VStr ''read''}, OrganizationGUID Json (VStr ''customerId'')].
      test ([Scopes {VStr ''read''}, OrganizationGUID Json (VStr ''customerId'')] ! i)
        reader post_array = Inl AttributeError
      \<and> (\<forall>j<i. test ([Scopes {VStr ''read''}, OrganizationGUID Json (VStr ''customerId'')] ! j)
            reader post_array = Inr True)"
    by (intro exI [of _ 1]) (simp add: scopes_reader intersects_def in_guids_def)
  have raised: "test (AllOf [Scopes {VStr ''read''}, OrganizationGUID Json (VStr ''customerId'')])
        reader post_array = Inl AttributeError"
    by (rule AnyOf_AllOf_test
        [of "[Scopes {VStr ''read''}, OrganizationGUID Json (VStr ''customerId'')]" reader
          post_array, THEN conjunct2, THEN conjunct2, THEN conjunct2, THEN conjunct2, THEN conjunct2, THEN conjunct2, THEN conjunct2, THEN conjunct2, rule_format, THEN iffD2, OF raising])
  note AnyOf_AllOf_test [of "[Scopes {VStr ''write''}, Scopes {VStr ''read''}]" reader get_orders,
      THEN conjunct2, THEN conjunct2, THEN conjunct1, THEN mp, OF children]
  then have "test (AnyOf [Scopes {VStr ''write''}, Scopes {VStr ''read''}]) reader get_orders
        = Inr True
      \<and> test (AllOf [Scopes {VStr ''write''}, Scopes {VStr ''read''}]) reader get_orders
        = Inr False"
    by (simp add: scopes_reader intersects_def)
  with raised show ?thesis
    by (simp add: scopes_reader intersects_def)
qed

text \<open>
  The claim as it was stated fails where a child raises. On a request whose body is a
  JSON array the test of an \<open>OrganizationGUID\<close> condition on the body raises
  \<^verbatim>\<open>AttributeError\<close>: the \<open>AllOf\<close> of that one child does not return \<^verbatim>\<open>True\<close>
  although no child returns \<^verbatim>\<open>False\<close>, and the \<open>AnyOf\<close> of that child and a scope
  condition does not return \<^verbatim>\<open>True\<close> although the scope condition does.
\<close>

theorem AnyOf_AllOf_raising_child:
  "test (OrganizationGUID Json (VStr ''customerId'')) reader post_array = Inl AttributeError
   \<and> test (AllOf [OrganizationGUID Json (VStr ''customerId'')]) reader post_array
       = Inl AttributeError
   \<and> test (Scopes {VStr ''read''}) reader post_array = Inr True
   \<and> test (AnyOf [OrganizationGUID Json (VStr ''customerId''), Scopes {VStr ''read''}])
         reader post_array
       = Inl AttributeError"
  by (simp add: scopes_reader intersects_def in_guids_def)

subsection \<open>The organization GUID in a JSON body\<close>

lemma strip_prefix_strings: "strip_prefix p xs = Inr S \<Longrightarrow> S \<subseteq> range VStr"
proof (induction p xs arbitrary: S rule: strip_prefix.induct)
  case (1 prefix)
  then show ?case by simp
next
  case (2 prefix urn xs)
  then show ?case by (auto split: sum.splits if_splits)
qed simp_all

lemma organization_guids_strings: "organization_guids u = Inr G \<Longrightarrow> G \<subseteq> range VStr"
  by (auto simp: organization_guids_def with_prefix_def split: sum.splits dest: strip_prefix_strings)

lemma in_string_set:
  assumes "G \<subseteq> range VStr"
  shows "in_set v G = Inr True \<longleftrightarrow> v \<in> G"
proof (cases v)
  case (VBool b)
  with assms show ?thesis by (auto simp: in_set_def)
next
  case (VList xs)
  with assms show ?thesis by (auto simp: in_set_def)
next
  case (VDict d)
  with assms show ?thesis by (auto simp: in_set_def)
qed (simp_all add: in_set_def)

lemma in_guids_True_iff:
  "in_guids value u = Inr True \<longleftrightarrow>
     (\<exists>v G. value = Inr v \<and> organization_guids u = Inr G \<and> v \<in> G)"
proof (cases "value")
  case (Inl e)
  then show ?thesis by (simp add: in_guids_def)
next
  case v: (Inr v)
  show ?thesis
  proof (cases "organization_guids u")
    case (Inl e)
    with v show ?thesis by (simp add: in_guids_def)
  next
    case (Inr G)
    then have "G \<subseteq> range VStr" by (rule organization_guids_strings)
    from in_string_set [OF this, of v] v Inr show ?thesis
      by (simp add: in_guids_def)
  qed
qed

text \<open>
  C7, as the code has it. The test of an \<open>OrganizationGUID\<close> condition on the JSON
  body first reads \<^verbatim>\<open>current_request.json\<close>. When that reading gives \<^verbatim>\<open>None\<close>, the
  test returns \<^verbatim>\<open>True\<close>, whatever the user's claims are. When that reading raises,
  the test raises the same exception. When it gives any other value, the test returns
  \<^verbatim>\<open>True\<close> exactly when the value is an object whose entry for the parameter
  (\<^verbatim>\<open>None\<close> when the key is absent) is one of the user's organization GUIDs.
\<close>

theorem OrganizationGUID_json_test:
  "(json r = Inr VNone \<longrightarrow> test (OrganizationGUID Json p) u r = Inr True)
   \<and> (\<forall>e. json r = Inl e \<longrightarrow> test (OrganizationGUID Json p) u r = Inl e)
   \<and> (\<forall>j. json r = Inr j \<and> j \<noteq> VNone \<longrightarrow>
        (test (OrganizationGUID Json p) u r = Inr True \<longleftrightarrow>
           (\<exists>d v G. j = VDict d \<and> dict_get d p = Inr v
              \<and> organization_guids u = Inr G \<and> v \<in> G)))"
proof (cases "json r")
  case (Inl e)
  then show ?thesis by simp
next
  case (Inr j)
  then show ?thesis
    by (cases j) (auto simp: in_guids_True_iff)
qed

lemma organization_guids_customer: "organization_guids customer = Inr {VStr ''abc''}"
  by (simp add: organization_guids_def entitlements_def attr_get_def with_prefix_def
      OrganizationGUID_URN_def)

lemma organization_guids_reader: "organization_guids reader = Inr {}"
  by (simp add: organization_guids_def entitlements_def attr_get_def with_prefix_def)

theorem OrganizationGUID_json_test_witness:
  "test (OrganizationGUID Json (VStr ''customerId'')) customer post_customer = Inr True
   \<and> test (OrganizationGUID Json (VStr ''customerId'')) reader post_customer = Inr False
   \<and> test (OrganizationGUID Json (VStr ''customerId'')) reader get_orders = Inr True
   \<and> test (OrganizationGUID Json (VStr ''customerId'')) customer post_malformed
       = Inl BadRequest"
  using OrganizationGUID_json_test [of post_customer "VStr ''customerId''" customer]
    OrganizationGUID_json_test [of post_customer "VStr ''customerId''" reader]
    OrganizationGUID_json_test [of get_orders "VStr ''customerId''" reader]
    OrganizationGUID_json_test [of post_malformed "VStr ''customerId''" customer]
  by (simp add: organization_guids_customer organization_guids_reader dict_get_def
      in_guids_def in_set_def)

text \<open>
  The claim as it was stated fails on both halves. A JSON request whose body does not
  parse makes the reading of \<^verbatim>\<open>current_request.json\<close> raise \<^verbatim>\<open>BadRequest\<close>, so
  the test raises instead of returning \<^verbatim>\<open>True\<close>. And the body \<^verbatim>\<open>null\<close> parses, to
  \<^verbatim>\<open>None\<close>: the test returns \<^verbatim>\<open>True\<close> for a user who has no organization GUID at
  all.
\<close>

theorem OrganizationGUID_json_body:
  "json post_malformed = Inl BadRequest
   \<and> test (OrganizationGUID Json (VStr ''customerId'')) customer post_malformed
       = Inl BadRequest
   \<and> json post_null = Inr VNone
   \<and> organization_guids reader = Inr {}
   \<and> test (OrganizationGUID Json (VStr ''customerId'')) reader post_null = Inr True"
  by (simp add: organization_guids_reader)

section \<open>Several matching rules\<close>

lemma matches_total:
  "\<forall>rule\<in>set rules. \<exists>b. rule_matches glob ep m rule = Inr b \<Longrightarrow>
   matches glob ep m rules
     = Inr (map (\<lambda>rule. snd (snd rule))
              (filter (\<lambda>rule. rule_matches glob ep m rule = Inr True) rules))"
  by (induction rules) auto

lemma matches_Inr_rules:
  "matches glob ep m rules = Inr cs \<Longrightarrow>
   \<forall>rule\<in>set rules. \<exists>b. rule_matches glob ep m rule = Inr b"
  by (induction rules arbitrary: cs) (auto split: sum.splits)

lemma matches_Inr_iff:
  "matches glob ep m rules = Inr cs \<longleftrightarrow>
     (\<forall>rule\<in>set rules. \<exists>b. rule_matches glob ep m rule = Inr b)
     \<and> cs = map (\<lambda>rule. snd (snd rule))
              (filter (\<lambda>rule. rule_matches glob ep m rule = Inr True) rules)"
  using matches_total [of rules glob ep m] matches_Inr_rules [of glob ep m rules cs]
  by auto

lemma matches_mset:
  assumes "mset rules' = mset rules" and "matches glob ep m rules = Inr cs"
  shows "\<exists>cs'. matches glob ep m rules' = Inr cs' \<and> mset cs' = mset cs"
proof -
  let ?P = "\<lambda>rule. rule_matches glob ep m rule = Inr True"
  let ?f = "\<lambda>rule :: rule. snd (snd rule)"
  have set: "set rules' = set rules"
    using assms(1) by (rule mset_eq_setD)
  from assms(2) have all: "\<forall>rule\<in>set rules. \<exists>b. rule_matches glob ep m rule = Inr b"
    and cs: "cs = map ?f (filter ?P rules)"
    by (simp_all add: matches_Inr_iff)
  have "matches glob ep m rules' = Inr (map ?f (filter ?P rules'))"
    using all set by (simp add: matches_Inr_iff)
  moreover have "mset (map ?f (filter ?P rules')) = mset cs"
    using assms(1) cs by simp
  ultimately show ?thesis by blast
qed

lemma is_allowed_no_raise:
  assumes "matches glob (endpoint_of r) (request_method r) rules = Inr ms"
    and "\<forall>c\<in>set ms. \<exists>b. test c u r = Inr b"
  shows "allowed (is_allowed glob F rules u r) = Inr (\<exists>c\<in>set ms. test c u r = Inr True)"
proof (cases "rules = []")
  case True
  with assms(1) show ?thesis
    by (simp add: is_allowed_def allowed_def)
next
  case False
  consider "1 < length ms" | "length ms = 1" | "ms = []"
    by (cases ms) (auto simp: less_Suc_eq_0_disj)
  then show ?thesis
  proof cases
    case 1
    with False assms(1) true_in_no_raise [OF assms(2)] show ?thesis
      by (simp add: is_allowed_def allowed_def)
  next
    case 2
    then obtain c where c: "ms = [c]"
      by (cases ms) auto
    with assms(2) obtain b where "test c u r = Inr b" by auto
    with False assms(1) c show ?thesis
      by (auto simp: is_allowed_def allowed_def)
  next
    case 3
    with False assms(1) show ?thesis
      by (simp add: is_allowed_def allowed_def)
  qed
qed

lemma scopes_stranger: "scopes stranger = Inr {VStr ''none''}"
  by (simp add: scopes_def attr_get_def py_set_def)

text \<open>
  C4, as the code has it. Let more than one rule match the endpoint and the method of
  the request, and let no test of a matching rule's condition raise. Then the request
  is allowed exactly when the condition of at least one matching rule tests true; every
  permutation of the rules gives the same outcome; and when all those conditions test
  false, the reason of the denial is the descriptions of all matching rules' conditions,
  in the order of the rules, joined by newlines.
\<close>

theorem several_matches:
  assumes "matches glob (endpoint_of r) (request_method r) rules = Inr ms"
    and "1 < length ms"
    and "\<forall>c\<in>set ms. \<exists>b. test c u r = Inr b"
  shows "(is_allowed glob F rules u r = Inr Allow \<longleftrightarrow> (\<exists>c\<in>set ms. test c u r = Inr True))
     \<and> (\<forall>rules'. mset rules' = mset rules \<longrightarrow>
           allowed (is_allowed glob F rules' u r) = allowed (is_allowed glob F rules u r))
     \<and> ((\<forall>c\<in>set ms. test c u r = Inr False) \<longrightarrow>
           is_allowed glob F rules u r = Inr (Deny (join_lines (map (str_of F) ms))))"
proof (intro conjI allI impI)
  have ne: "rules \<noteq> []" using assms(1,2) by auto
  show "is_allowed glob F rules u r = Inr Allow \<longleftrightarrow> (\<exists>c\<in>set ms. test c u r = Inr True)"
    using is_allowed_no_raise [OF assms(1,3), of F]
    by (auto simp: allowed_def split: sum.splits)
  show "is_allowed glob F rules u r = Inr (Deny (join_lines (map (str_of F) ms)))"
    if "\<forall>c\<in>set ms. test c u r = Inr False"
  proof -
    have "true_in ms u r = Inr False"
      using true_in_no_raise [OF assms(3)] that by simp
    with ne assms(1,2) show ?thesis
      by (simp add: is_allowed_def)
  qed
next
  fix rules' :: "rule list"
  assume perm: "mset rules' = mset rules"
  from matches_mset [OF perm assms(1)] obtain ms'
    where ms': "matches glob (endpoint_of r) (request_method r) rules' = Inr ms'"
      and eq: "mset ms' = mset ms" by blast
  have set: "set ms' = set ms" using eq by (rule mset_eq_setD)
  with assms(3) have "\<forall>c\<in>set ms'. \<exists>b. test c u r = Inr b" by simp
  from is_allowed_no_raise [OF ms' this, of F] is_allowed_no_raise [OF assms(1,3), of F] set
  show "allowed (is_allowed glob F rules' u r) = allowed (is_allowed glob F rules u r)"
    by simp
qed

theorem several_matches_witness:
  "matches wildcard (endpoint_of get_orders) (request_method get_orders) two_rules
     = Inr [Scopes {VStr ''write''}, Scopes {VStr ''read''}]
   \<and> is_allowed wildcard plain two_rules reader get_orders = Inr Allow
   \<and> allowed (is_allowed wildcard plain
        [(VStr ''*'', VList [VStr ''*''], Scopes {VStr ''read''}),
         (VStr ''orders.*'', VList [VStr ''GET''], Scopes {VStr ''write''})]
        reader get_orders) = Inr True
   \<and> is_allowed wildcard plain two_rules stranger get_orders
       = Inr (Deny (join_lines
           (map (str_of plain) [Scopes {VStr ''write''}, Scopes {VStr ''read''}])))"
proof -
  have m: "matches wildcard (endpoint_of get_orders) (request_method get_orders) two_rules
      = Inr [Scopes {VStr ''write''}, Scopes {VStr ''read''}]"
    by (simp add: endpoint_of_def rule_matches_def fnmatch_def accepts_def)
  have l: "1 < length [Scopes {VStr ''write''}, Scopes {VStr ''read''}]"
    by simp
  have reader: "\<forall>c\<in>set [Scopes {VStr ''write''}, Scopes {VStr ''read''}].
      \<exists>b. test c reader get_orders = Inr b"
    by (auto simp: scopes_reader intersects_def)
  have stranger: "\<forall>c\<in>set [Scopes {VStr ''write''}, Scopes {VStr ''read''}].
      \<exists>b. test c stranger get_orders = Inr b"
    by (auto simp: scopes_stranger intersects_def)
  have perm: "mset [(VStr ''*'', VList [VStr ''*''], Scopes {VStr ''read''}),
         (VStr ''orders.*'', VList [VStr ''GET''], Scopes {VStr ''write''})] = mset two_rules"
    by simp
  from several_matches [OF m l reader, of plain] perm
  have "is_allowed wildcard plain two_rules reader get_orders = Inr Allow"
    and "allowed (is_allowed wildcard plain
        [(VStr ''*'', VList [VStr ''*''], Scopes {VStr ''read''}),
         (VStr ''orders.*'', VList [VStr ''GET''], Scopes {VStr ''write''})]
        reader get_orders) = Inr True"
    by (simp_all add: scopes_reader intersects_def allowed_def)
  moreover from several_matches [OF m l stranger, of plain]
  have "is_allowed wildcard plain two_rules stranger get_orders
       = Inr (Deny (join_lines
           (map (str_of plain) [Scopes {VStr ''write''}, Scopes {VStr ''read''}])))"
    by (simp add: scopes_stranger intersects_def)
  ultimately show ?thesis
    using m by simp
qed

text \<open>
  The claim as it was stated fails where a test raises. Both rules below match the
  \<^verbatim>\<open>POST\<close> whose body is a JSON array. With the scope rule first the request is
  allowed; with the rules swapped the test of the \<open>OrganizationGUID\<close> condition runs
  first and raises, although the scope rule's condition tests true.
\<close>

theorem several_matches_order_matters:
  "matches wildcard (endpoint_of post_array) (request_method post_array)
      [(VStr ''*'', VList [VStr ''*''], Scopes {VStr ''read''}),
       (VStr ''orders.*'', VList [VStr ''POST''], OrganizationGUID Json (VStr ''customerId''))]
    = Inr [Scopes {VStr ''read''}, OrganizationGUID Json (VStr ''customerId'')]
   \<and> test (Scopes {VStr ''read''}) reader post_array = Inr True
   \<and> is_allowed wildcard plain
      [(VStr ''*'', VList [VStr ''*''], Scopes {VStr ''read''}),
       (VStr ''orders.*'', VList [VStr ''POST''], OrganizationGUID Json (VStr ''customerId''))]
      reader post_array = Inr Allow
   \<and> is_allowed wildcard plain
      [(VStr ''orders.*'', VList [VStr ''POST''], OrganizationGUID Json (VStr ''customerId'')),
       (VStr ''*'', VList [VStr ''*''], Scopes {VStr ''read''})]
      reader post_array = Inl AttributeError"
  by (simp add: is_allowed_def endpoint_of_def rule_matches_def fnmatch_def accepts_def
      scopes_reader intersects_def in_guids_def)

section \<open>Properties of the user attributes\<close>

lemma with_prefix_strings: "with_prefix p v = Inr S \<Longrightarrow> S \<subseteq> range VStr"
  by (auto simp: with_prefix_def split: sum.splits dest: strip_prefix_strings)

lemma TargetOrganizations_never_true: "test (TargetOrganizations S) u r \<noteq> Inr True"
proof (cases "organization_codes u")
  case (Inl e)
  then show ?thesis by (simp add: intersects_def)
next
  case (Inr A)
  then have "A \<subseteq> range VStr"
    unfolding organization_codes_def by (rule with_prefix_strings)
  then have "A \<inter> VInt ` S = {}" by auto
  with Inr show ?thesis by (simp add: intersects_def)
qed

text \<open>
  C1. \<open>TargetOrganizations\<close> keeps the organization codes of its groups as integers,
  while the codes of a user are the string suffixes of the entitlements. A string is
  never equal to an integer, so the intersection is always empty: the condition built
  from the group \<^verbatim>\<open>institutions\<close>, which holds the code 1, tests false for the user
  whose entitlement carries the code \<^verbatim>\<open>1\<close>, and no condition of this kind tests true
  for any user.
\<close>

theorem TargetOrganizations_institution_member:
  "TargetOrganizations_init (VList [VStr ''institutions''])
     = Inr (TargetOrganizations {1, 2, 3, 4, 9, 14, 18, 19, 22, 23, 24})
   \<and> organization_codes member = Inr {VStr ''1''}
   \<and> test (TargetOrganizations {1, 2, 3, 4, 9, 14, 18, 19, 22, 23, 24}) member get_orders
       = Inr False
   \<and> (\<forall>S u r. test (TargetOrganizations S) u r \<noteq> Inr True)"
proof -
  have "TargetOrganizations_init (VList [VStr ''institutions''])
      = Inr (TargetOrganizations {1, 2, 3, 4, 9, 14, 18, 19, 22, 23, 24})"
    by (simp add: TargetOrganizations_init_def TargetOrganizations_valid_def lookup_valid_def)
  moreover have codes: "organization_codes member = Inr {VStr ''1''}"
    by (simp add: organization_codes_def entitlements_def attr_get_def with_prefix_def
        TargetOrganizations_URN_def)
  moreover have "test (TargetOrganizations {1, 2, 3, 4, 9, 14, 18, 19, 22, 23, 24})
      member get_orders = Inr False"
    by (simp add: codes intersects_def)
  ultimately show ?thesis
    using TargetOrganizations_never_true by blast
qed

lemma strip_prefix_map:
  "strip_prefix p (map VStr xs) = Inr (VStr ` drop (length p) ` {x \<in> set xs. startswith x p})"
  by (induction xs) auto

lemma py_set_hashable: "list_all hashable xs \<Longrightarrow> py_set (VList xs) = Inr (hkey ` set xs)"
  by (simp add: py_set_def)

lemma scopes_string: "map_of u ''scope'' = Some (VStr s) \<Longrightarrow> scopes u = Inr (VStr ` set (split_space s))"
  by (simp add: scopes_def attr_get_def py_set_def list_all_iff image_image)

lemma scopes_list: "map_of u ''scope'' = Some (VList xs) \<Longrightarrow> list_all hashable xs \<Longrightarrow> scopes u = Inr (hkey ` set xs)"
  by (simp add: scopes_def attr_get_def py_set_def)

lemma scopes_absent: "map_of u ''scope'' = None \<Longrightarrow> \<exists>S. scopes u = Inr S"
  by (simp add: scopes_def attr_get_def py_set_def)

lemma accessors_absent:
  "(''active'' \<notin> fst ` set u \<longrightarrow> active u = VBool False)
   \<and> (''authenticating_authority'' \<notin> fst ` set u \<longrightarrow> authenticating_authority u = VStr '''')
   \<and> (''display_name'' \<notin> fst ` set u \<longrightarrow> display_name u = VStr '''')
   \<and> (''edu_person_principal_name'' \<notin> fst ` set u \<longrightarrow> principal_name u = VStr '''')
   \<and> (''email'' \<notin> fst ` set u \<longrightarrow> email u = VStr '''')
   \<and> (''user_name'' \<notin> fst ` set u \<and> ''unspecified_id'' \<notin> fst ` set u \<longrightarrow> user_name u = VStr '''')
   \<and> (''edumember_is_member_of'' \<notin> fst ` set u \<longrightarrow> memberships u = VList [] \<and> teams u = Inr {})
   \<and> (''eduperson_entitlement'' \<notin> fst ` set u \<longrightarrow>
         entitlements u = VList [] \<and> roles u = Inr {} \<and> organization_codes u = Inr {}
         \<and> organization_guids u = Inr {})
   \<and> (\<forall>xs. memberships u = VList (map VStr xs) \<longrightarrow>
         teams u = Inr (VStr ` drop (length Teams_URN) ` {x \<in> set xs. startswith x Teams_URN}))
   \<and> (\<forall>xs. entitlements u = VList (map VStr xs) \<longrightarrow>
         roles u = Inr (VStr ` drop (length SABRoles_URN) ` {x \<in> set xs. startswith x SABRoles_URN})
         \<and> organization_codes u = Inr (VStr ` drop (length TargetOrganizations_URN)
               ` {x \<in> set xs. startswith x TargetOrganizations_URN})
         \<and> organization_guids u = Inr (VStr ` drop (length OrganizationGUID_URN)
               ` {x \<in> set xs. startswith x OrganizationGUID_URN}))
   \<and> (''scope'' \<notin> fst ` set u \<or> (\<exists>s. map_of u ''scope'' = Some (VStr s))
        \<or> (\<exists>xs. map_of u ''scope'' = Some (VList xs) \<and> list_all hashable xs) \<longrightarrow>
         (\<exists>S. scopes u = Inr S))"
proof -
  have absent: "attr_get u k d = d" if "k \<notin> fst ` set u" for k d
  proof -
    from that have "map_of u k = None" by (simp add: map_of_eq_None_iff)
    then show ?thesis by (simp add: attr_get_def)
  qed
  have scope: "\<exists>S. scopes u = Inr S"
    if "''scope'' \<notin> fst ` set u \<or> (\<exists>s. map_of u ''scope'' = Some (VStr s))
        \<or> (\<exists>xs. map_of u ''scope'' = Some (VList xs) \<and> list_all hashable xs)"
    using that scopes_string [of u] scopes_list [of u] scopes_absent [of u]
    by (auto simp: map_of_eq_None_iff)
  show ?thesis
    using scope
    by (simp add: absent active_def authenticating_authority_def display_name_def
        principal_name_def email_def user_name_def memberships_def entitlements_def
        teams_def roles_def organization_codes_def organization_guids_def with_prefix_def
        strip_prefix_map)
qed


lemma accessors_present:
  "(\<forall>v. map_of u ''active'' = Some v \<longrightarrow> active u = v)
   \<and> (\<forall>v. map_of u ''authenticating_authority'' = Some v \<longrightarrow> authenticating_authority u = v)
   \<and> (\<forall>v. map_of u ''display_name'' = Some v \<longrightarrow> display_name u = v)
   \<and> (\<forall>v. map_of u ''edu_person_principal_name'' = Some v \<longrightarrow> principal_name u = v)
   \<and> (\<forall>v. map_of u ''email'' = Some v \<longrightarrow> email u = v)
   \<and> (\<forall>v. map_of u ''edumember_is_member_of'' = Some v \<longrightarrow> memberships u = v)
   \<and> (\<forall>v. map_of u ''eduperson_entitlement'' = Some v \<longrightarrow> entitlements u = v)"
  by (simp add: active_def authenticating_authority_def display_name_def principal_name_def
      email_def memberships_def entitlements_def attr_get_def)

lemma user_name_cases:
  "(\<forall>v. map_of u ''user_name'' = Some v \<longrightarrow> user_name u = v)
   \<and> (\<forall>v. ''user_name'' \<notin> fst ` set u \<and> map_of u ''unspecified_id'' = Some v \<longrightarrow>
         user_name u = v)"
proof -
  have key: "k \<in> fst ` set u" if "map_of u k = Some v" for k v
    using that by (metis map_of_eq_None_iff option.distinct(1))
  show ?thesis
    by (auto simp: user_name_def attr_get_def dest: key)
qed

lemma scopes_values:
  "(\<forall>s. map_of u ''scope'' = Some (VStr s) \<longrightarrow> scopes u = Inr (VStr ` set (split_space s)))
   \<and> (\<forall>xs. map_of u ''scope'' = Some (VList xs) \<and> list_all hashable xs \<longrightarrow>
         scopes u = Inr (hkey ` set xs))"
  using scopes_string [of u] scopes_list [of u] by simp

text \<open>
  C2, as the code has it. The accessors \<open>active\<close>, \<open>authenticating_authority\<close>,
  \<open>display_name\<close>, \<open>principal_name\<close>, \<open>email\<close>, \<open>memberships\<close> and \<open>entitlements\<close>
  only look a key up: on every claims dictionary they return the value of the key
  when it is present, and otherwise the empty string, \<^verbatim>\<open>False\<close> for \<open>active\<close> and
  the empty list for the two lists. \<open>user_name\<close> returns the value of
  \<^verbatim>\<open>user_name\<close> when that key is present, otherwise the value of
  \<^verbatim>\<open>unspecified_id\<close> when that key is present, otherwise the empty string.
  \<open>roles\<close>, \<open>organization_codes\<close> and \<open>organization_guids\<close> return the empty set
  when the entitlements are absent, and the stripped suffixes when they are a list of
  strings; \<open>teams\<close> does the same on the memberships. \<open>scopes\<close> returns a set when
  the scope is absent, the set of the tokens between single spaces when it is a string,
  and the set of the elements when it is a list of hashable values.
\<close>

theorem accessors_defaults:
  "(''active'' \<notin> fst ` set u \<longrightarrow> active u = VBool False)
   \<and> (''authenticating_authority'' \<notin> fst ` set u \<longrightarrow> authenticating_authority u = VStr '''')
   \<and> (''display_name'' \<notin> fst ` set u \<longrightarrow> display_name u = VStr '''')
   \<and> (''edu_person_principal_name'' \<notin> fst ` set u \<longrightarrow> principal_name u = VStr '''')
   \<and> (''email'' \<notin> fst ` set u \<longrightarrow> email u = VStr '''')
   \<and> (''user_name'' \<notin> fst ` set u \<and> ''unspecified_id'' \<notin> fst ` set u \<longrightarrow> user_name u = VStr '''')
   \<and> (''edumember_is_member_of'' \<notin> fst ` set u \<longrightarrow> memberships u = VList [] \<and> teams u = Inr {})
   \<and> (''eduperson_entitlement'' \<notin> fst ` set u \<longrightarrow>
         entitlements u = VList [] \<and> roles u = Inr {} \<and> organization_codes u = Inr {}
         \<and> organization_guids u = Inr {})
   \<and> (\<forall>xs. memberships u = VList (map VStr xs) \<longrightarrow>
         teams u = Inr (VStr ` drop (length Teams_URN) ` {x \<in> set xs. startswith x Teams_URN}))
   \<and> (\<forall>xs. entitlements u = VList (map VStr xs) \<longrightarrow>
         roles u = Inr (VStr ` drop (length SABRoles_URN) ` {x \<in> set xs. startswith x SABRoles_URN})
         \<and> organization_codes u = Inr (VStr ` drop (length TargetOrganizations_URN)
               ` {x \<in> set xs. startswith x TargetOrganizations_URN})
         \<and> organization_guids u = Inr (VStr ` drop (length OrganizationGUID_URN)
               ` {x \<in> set xs. startswith x OrganizationGUID_URN}))
   \<and> (''scope'' \<notin> fst ` set u \<or> (\<exists>s. map_of u ''scope'' = Some (VStr s))
        \<or> (\<exists>xs. map_of u ''scope'' = Some (VList xs) \<and> list_all hashable xs) \<longrightarrow>
         (\<exists>S. scopes u = Inr S))
   \<and> (\<forall>v. map_of u ''active'' = Some v \<longrightarrow> active u = v)
   \<and> (\<forall>v. map_of u ''authenticating_authority'' = Some v \<longrightarrow> authenticating_authority u = v)
   \<and> (\<forall>v. map_of u ''display_name'' = Some v \<longrightarrow> display_name u = v)
   \<and> (\<forall>v. map_of u ''edu_person_principal_name'' = Some v \<longrightarrow> principal_name u = v)
   \<and> (\<forall>v. map_of u ''email'' = Some v \<longrightarrow> email u = v)
   \<and> (\<forall>v. map_of u ''edumember_is_member_of'' = Some v \<longrightarrow> memberships u = v)
   \<and> (\<forall>v. map_of u ''eduperson_entitlement'' = Some v \<longrightarrow> entitlements u = v)
   \<and> (\<forall>v. map_of u ''user_name'' = Some v \<longrightarrow> user_name u = v)
   \<and> (\<forall>v. ''user_name'' \<notin> fst ` set u \<and> map_of u ''unspecified_id'' = Some v \<longrightarrow>
         user_name u = v)
   \<and> (\<forall>s. map_of u ''scope'' = Some (VStr s) \<longrightarrow> scopes u = Inr (VStr ` set (split_space s)))
   \<and> (\<forall>xs. map_of u ''scope'' = Some (VList xs) \<and> list_all hashable xs \<longrightarrow>
         scopes u = Inr (hkey ` set xs))"
  using accessors_absent [of u] accessors_present [of u] user_name_cases [of u]
    scopes_values [of u]
  by (elim conjE) (intro conjI, assumption+)

theorem accessors_defaults_witness:
  "active reader = VBool False
   \<and> display_name reader = VStr ''''
   \<and> user_name reader = VStr ''''
   \<and> user_name [(''unspecified_id'', VStr ''urn:collab:person:surfguest.nl:jdoe'')]
       = VStr ''urn:collab:person:surfguest.nl:jdoe''
   \<and> memberships reader = VList []
   \<and> teams reader = Inr {}
   \<and> roles reader = Inr {}
   \<and> organization_guids customer = Inr {VStr ''abc''}
   \<and> scopes reader = Inr {VStr ''read''}"
proof -
  have ents: "entitlements customer
      = VList (map VStr [''urn:mace:surfnet.nl:surfnet.nl:sab:organizationGUID:abc''])"
    by (simp add: entitlements_def attr_get_def)
  note accessors_defaults [of customer, THEN conjunct2, THEN conjunct2, THEN conjunct2, THEN conjunct2, THEN conjunct2, THEN conjunct2, THEN conjunct2, THEN conjunct2, THEN conjunct2, THEN conjunct1, rule_format, OF ents]
  then have "organization_guids customer
      = Inr (VStr ` drop (length OrganizationGUID_URN)
          ` {x \<in> set [''urn:mace:surfnet.nl:surfnet.nl:sab:organizationGUID:abc''].
               startswith x OrganizationGUID_URN})"
    by (elim conjE)
  also have "{x \<in> set [''urn:mace:surfnet.nl:surfnet.nl:sab:organizationGUID:abc''].
               startswith x OrganizationGUID_URN}
      = {''urn:mace:surfnet.nl:surfnet.nl:sab:organizationGUID:abc''}"
    by (auto simp: OrganizationGUID_URN_def)
  finally have guids: "organization_guids customer = Inr {VStr ''abc''}"
    by (simp add: OrganizationGUID_URN_def)
  have jdoe: "''user_name'' \<notin> fst ` set [(''unspecified_id'', VStr ''urn:collab:person:surfguest.nl:jdoe'')]
      \<and> map_of [(''unspecified_id'', VStr ''urn:collab:person:surfguest.nl:jdoe'')] ''unspecified_id''
          = Some (VStr ''urn:collab:person:surfguest.nl:jdoe'')"
    by simp
  have name: "user_name [(''unspecified_id'', VStr ''urn:collab:person:surfguest.nl:jdoe'')]
       = VStr ''urn:collab:person:surfguest.nl:jdoe''"
    by (rule accessors_defaults
        [of "[(''unspecified_id'', VStr ''urn:collab:person:surfguest.nl:jdoe'')]",
          THEN conjunct2, THEN conjunct2, THEN conjunct2, THEN conjunct2, THEN conjunct2, THEN conjunct2, THEN conjunct2, THEN conjunct2, THEN conjunct2, THEN conjunct2, THEN conjunct2, THEN conjunct2, THEN conjunct2, THEN conjunct2, THEN conjunct2, THEN conjunct2, THEN conjunct2, THEN conjunct2, THEN conjunct2, THEN conjunct1, rule_format, OF jdoe])
  have read: "map_of reader ''scope'' = Some (VStr ''read'')"
    by simp
  have "scopes reader = Inr (VStr ` set (split_space ''read''))"
    by (rule accessors_defaults [of reader, THEN conjunct2, THEN conjunct2, THEN conjunct2, THEN conjunct2, THEN conjunct2, THEN conjunct2, THEN conjunct2, THEN conjunct2, THEN conjunct2, THEN conjunct2, THEN conjunct2, THEN conjunct2, THEN conjunct2, THEN conjunct2, THEN conjunct2, THEN conjunct2, THEN conjunct2, THEN conjunct2, THEN conjunct2, THEN conjunct2, THEN conjunct1, rule_format, OF read])
  then have scope: "scopes reader = Inr {VStr ''read''}"
    by simp
  have no_active: "''active'' \<notin> fst ` set reader"
    and no_display: "''display_name'' \<notin> fst ` set reader"
    and no_name: "''user_name'' \<notin> fst ` set reader \<and> ''unspecified_id'' \<notin> fst ` set reader"
    and no_members: "''edumember_is_member_of'' \<notin> fst ` set reader"
    and no_entitlement: "''eduperson_entitlement'' \<notin> fst ` set reader"
    by simp_all
  note accessors_defaults [of reader, THEN conjunct1, rule_format, OF no_active]
    accessors_defaults [of reader, THEN conjunct2, THEN conjunct2, THEN conjunct1, rule_format, OF no_display]
    accessors_defaults [of reader, THEN conjunct2, THEN conjunct2, THEN conjunct2, THEN conjunct2, THEN conjunct2, THEN conjunct1, rule_format, OF no_name]
    accessors_defaults [of reader, THEN conjunct2, THEN conjunct2, THEN conjunct2, THEN conjunct2, THEN conjunct2, THEN conjunct2, THEN conjunct1, rule_format, OF no_members]
    accessors_defaults [of reader, THEN conjunct2, THEN conjunct2, THEN conjunct2, THEN conjunct2, THEN conjunct2, THEN conjunct2, THEN conjunct2, THEN conjunct1, rule_format, OF no_entitlement]
  with guids name scope show ?thesis
    by simp
qed

text \<open>
  The claim as it was stated fails on three counts: a scope claim that is neither a
  string nor a list makes \<open>scopes\<close> raise, the default of \<open>active\<close> is \<^verbatim>\<open>False\<close>, and
  without a scope claim \<open>scopes\<close> is the set of the empty string, since
  \<^verbatim>\<open>"".split(" ")\<close> is \<^verbatim>\<open>[""]\<close>.
\<close>

theorem accessors_not_always_empty:
  "scopes [(''scope'', VInt 5)] = Inl AttributeError
   \<and> active [] = VBool False
   \<and> scopes [] = Inr {VStr ''''}"
  by (simp add: scopes_def attr_get_def active_def py_set_def)

section \<open>Properties of the constructor\<close>

subsection \<open>Rule definitions\<close>

lemma in_valid_methods:
  "in_set m (VStr ` VALID_HTTP_METHODS) = Inr True \<longleftrightarrow> m \<in> VStr ` VALID_HTTP_METHODS"
  by (rule in_string_set) auto

lemma check_methods_Inr:
  "check_methods counter definition ms = Inr x \<Longrightarrow> set ms \<subseteq> VStr ` VALID_HTTP_METHODS"
proof (induction ms)
  case Nil
  then show ?case by simp
next
  case (Cons m ms)
  from Cons.prems have "in_set m (VStr ` VALID_HTTP_METHODS) = Inr True"
    by (auto split: sum.splits if_splits)
  then have "m \<in> VStr ` VALID_HTTP_METHODS" by (simp only: in_valid_methods)
  moreover from Cons have "set ms \<subseteq> VStr ` VALID_HTTP_METHODS"
    by (auto split: sum.splits if_splits)
  ultimately show ?case by simp
qed

lemma check_methods_valid:
  "set ms \<subseteq> VStr ` VALID_HTTP_METHODS \<Longrightarrow> check_methods counter definition ms = Inr ()"
proof (induction ms)
  case Nil
  then show ?case by simp
next
  case (Cons m ms)
  then have "m \<in> VStr ` VALID_HTTP_METHODS" by simp
  then have "in_set m (VStr ` VALID_HTTP_METHODS) = Inr True" by (simp only: in_valid_methods)
  with Cons show ?case by simp
qed

lemma check_methods_invalid:
  "list_all hashable ms \<Longrightarrow> \<not> set ms \<subseteq> VStr ` VALID_HTTP_METHODS \<Longrightarrow>
   \<exists>m. check_methods counter definition ms
     = Inl (InvalidRuleDefinition (Not_a_valid_HTTP_method m) counter definition)"
proof (induction ms)
  case Nil
  then show ?case by simp
next
  case (Cons m ms)
  show ?case
  proof (cases "m \<in> VStr ` VALID_HTTP_METHODS")
    case True
    then have "in_set m (VStr ` VALID_HTTP_METHODS) = Inr True" by (simp only: in_valid_methods)
    with True Cons show ?thesis by auto
  next
    case False
    then have "in_set m (VStr ` VALID_HTTP_METHODS) \<noteq> Inr True"
      by (simp add: in_valid_methods)
    moreover from Cons.prems have "hashable m" by simp
    ultimately have "in_set m (VStr ` VALID_HTTP_METHODS) = Inr False"
      by (simp add: in_set_def)
    then show ?thesis by auto
  qed
qed

lemma compile_definition_Inr:
  assumes "compile_definition counter checker definition = Inr (rule, checker')"
  shows "well_formed definition \<and> methods_valid (fst (snd rule))
     \<and> subscript definition ''endpoint'' = Inr (fst rule)
     \<and> subscript definition ''methods'' = Inr (fst (snd rule))"
proof -
  from assms obtain e hm ms x cs c
    where e: "subscript definition ''endpoint'' = Inr e"
      and hm: "subscript definition ''methods'' = Inr hm"
      and ms: "py_iter hm = Inr ms"
      and chk: "check_methods counter definition ms = Inr x"
      and cs: "subscript definition ''conditions'' = Inr cs"
      and rule: "rule = (e, hm, c)"
    by (auto simp: compile_definition_def split: sum.splits error.splits option.splits)
  from check_methods_Inr [OF chk] ms have "methods_valid hm"
    by (simp add: methods_valid_def)
  with e hm cs rule show ?thesis
    by (simp add: well_formed_def)
qed

lemma compile_rules_Inr:
  "compile_rules counter checker ds = Inr rules \<Longrightarrow>
   length rules = length ds \<and> (\<forall>x\<in>set ds. well_formed x)
   \<and> (\<forall>rule\<in>set rules. methods_valid (fst (snd rule)))"
proof (induction ds arbitrary: counter checker rules)
  case Nil
  then show ?case by simp
next
  case (Cons d ds)
  from Cons.prems obtain rule checker' rest
    where d: "compile_definition counter checker d = Inr (rule, checker')"
      and rest: "compile_rules (Suc counter) checker' ds = Inr rest"
      and rules: "rules = rule # rest"
    by (auto split: sum.splits)
  from compile_definition_Inr [OF d] Cons.IH [OF rest] rules show ?case
    by simp
qed

lemma defective_fails:
  assumes "defective d"
  shows "\<exists>m. \<forall>checker. compile_definition counter checker (VDict d)
     = Inl (InvalidRuleDefinition m counter (VDict d))"
proof (cases "map_of d ''endpoint''")
  case None
  then show ?thesis by (auto simp: compile_definition_def)
next
  case endpoint: (Some e)
  show ?thesis
  proof (cases "map_of d ''methods''")
    case None
    with endpoint show ?thesis by (auto simp: compile_definition_def)
  next
    case (Some v)
    with assms endpoint obtain ms where ms: "v = VList ms" "list_all hashable ms"
      "\<not> set ms \<subseteq> VStr ` VALID_HTTP_METHODS \<or> map_of d ''conditions'' = None"
      by (auto simp: defective_def split: pyval.splits)
    show ?thesis
    proof (cases "set ms \<subseteq> VStr ` VALID_HTTP_METHODS")
      case True
      with ms have "map_of d ''conditions'' = None" by simp
      with endpoint Some ms(1) check_methods_valid [OF True] show ?thesis
        by (auto simp: compile_definition_def)
    next
      case False
      from check_methods_invalid [OF ms(2) False, of counter "VDict d"] obtain m
        where "check_methods counter (VDict d) ms
          = Inl (InvalidRuleDefinition (Not_a_valid_HTTP_method m) counter (VDict d))" ..
      with endpoint Some ms(1) show ?thesis
        by (auto simp: compile_definition_def)
    qed
  qed
qed

lemma compile_rules_first_failure:
  assumes "compile_rules counter checker pre = Inr rs"
    and "\<forall>ck. compile_definition (counter + length pre) ck x = Inl e"
  shows "compile_rules counter checker (pre @ x # post) = Inl e"
  using assms
proof (induction pre arbitrary: counter checker rs)
  case Nil
  then show ?case by simp
next
  case (Cons d pre)
  from Cons.prems(1) obtain rule checker' rest
    where d: "compile_definition counter checker d = Inr (rule, checker')"
      and rest: "compile_rules (Suc counter) checker' pre = Inr rest"
    by (auto split: sum.splits)
  from Cons.prems(2) have "\<forall>ck. compile_definition (Suc counter + length pre) ck x = Inl e"
    by simp
  from Cons.IH [OF rest this] d show ?case by simp
qed

lemma Scopes_read: "Scopes_init (VList [VStr ''read'']) = Inr (Scopes {VStr ''read''})"
  by (simp add: Scopes_init_def py_set_def)

lemma compile_orders:
  "compile_definition n ck orders_definition
     = Inr ((VStr ''orders.*'', VList [VStr ''GET''], Scopes {VStr ''read''}),
            Some (Scopes {VStr ''read''}))"
  by (simp add: compile_definition_def in_set_def VALID_HTTP_METHODS_def build_checker_def
      reraise_def Scopes_read)

text \<open>
  C3, as the code has it. Let the security definitions hold a value under \<^verbatim>\<open>rules\<close>
  that can be iterated. If the construction succeeds, it has built one rule for every
  definition, every definition has the keys \<^verbatim>\<open>endpoint\<close>, \<^verbatim>\<open>methods\<close> and
  \<^verbatim>\<open>conditions\<close>, and the methods of every rule, possibly none, are all valid HTTP
  methods; so the construction fails as a whole when one definition lacks a key or
  lists another method. When the definitions before position \<open>i\<close> compile and the
  definition at \<open>i\<close> is a defective dictionary, the failure is an
  \<^verbatim>\<open>InvalidRuleDefinition\<close> that carries \<open>i\<close> and that definition.
\<close>

theorem compile_all_or_nothing:
  assumes "map_of sd ''rules'' = Some definitions" and "py_iter definitions = Inr ds"
  shows "(\<forall>rules. AccessControl_init (Some sd) = Inr rules \<longrightarrow>
            length rules = length ds \<and> (\<forall>x\<in>set ds. well_formed x)
            \<and> (\<forall>rule\<in>set rules. methods_valid (fst (snd rule))))
     \<and> (\<forall>i d rs. i < length ds \<and> ds ! i = VDict d \<and> defective d
            \<and> compile_rules 0 None (take i ds) = Inr rs \<longrightarrow>
          (\<exists>m. AccessControl_init (Some sd) = Inl (InvalidRuleDefinition m i (ds ! i))))"
proof (intro conjI allI impI)
  have init: "AccessControl_init (Some sd) = compile_rules 0 None ds"
    using assms by (simp add: AccessControl_init_def)
  fix rules
  assume "AccessControl_init (Some sd) = Inr rules"
  with init have "compile_rules 0 None ds = Inr rules" by simp
  from compile_rules_Inr [OF this]
  show "length rules = length ds" and "\<forall>x\<in>set ds. well_formed x"
    and "\<forall>rule\<in>set rules. methods_valid (fst (snd rule))"
    by simp_all
next
  have init: "AccessControl_init (Some sd) = compile_rules 0 None ds"
    using assms by (simp add: AccessControl_init_def)
  fix i d rs
  assume a: "i < length ds \<and> ds ! i = VDict d \<and> defective d
      \<and> compile_rules 0 None (take i ds) = Inr rs"
  then have i: "i < length ds" and d: "ds ! i = VDict d" and bad: "defective d"
    and pre: "compile_rules 0 None (take i ds) = Inr rs"
    by simp_all
  from defective_fails [OF bad, of i] obtain m
    where m: "\<forall>ck. compile_definition i ck (VDict d) = Inl (InvalidRuleDefinition m i (VDict d))"
    by blast
  have len: "length (take i ds) = i" using i by simp
  from m len have "\<forall>ck. compile_definition (0 + length (take i ds)) ck (VDict d)
      = Inl (InvalidRuleDefinition m i (VDict d))"
    by simp
  from compile_rules_first_failure [OF pre this, of "drop (Suc i) ds"]
  have "compile_rules 0 None (take i ds @ VDict d # drop (Suc i) ds)
      = Inl (InvalidRuleDefinition m i (VDict d))" .
  moreover have "take i ds @ VDict d # drop (Suc i) ds = ds"
    using id_take_nth_drop [OF i] d by simp
  ultimately show "\<exists>m. AccessControl_init (Some sd) = Inl (InvalidRuleDefinition m i (ds ! i))"
    using init d by auto
qed

theorem compile_all_or_nothing_witness:
  "AccessControl_init (Some [(''rules'', VList [orders_definition])])
     = Inr [(VStr ''orders.*'', VList [VStr ''GET''], Scopes {VStr ''read''})]
   \<and> well_formed orders_definition
   \<and> methods_valid (VList [VStr ''GET''])
   \<and> AccessControl_init (Some [(''rules'', VList [orders_definition, VDict no_endpoint])])
     = Inl (InvalidRuleDefinition Missing_endpoint 1 (VDict no_endpoint))"
proof -
  have one: "AccessControl_init (Some [(''rules'', VList [orders_definition])])
     = Inr [(VStr ''orders.*'', VList [VStr ''GET''], Scopes {VStr ''read''})]"
    by (simp add: AccessControl_init_def compile_orders)
  have r1: "map_of [(''rules'', VList [orders_definition])] ''rules''
      = Some (VList [orders_definition])"
    and i1: "py_iter (VList [orders_definition]) = Inr [orders_definition]"
    by simp_all
  have r2: "map_of [(''rules'', VList [orders_definition, VDict no_endpoint])] ''rules''
      = Some (VList [orders_definition, VDict no_endpoint])"
    and i2: "py_iter (VList [orders_definition, VDict no_endpoint])
      = Inr [orders_definition, VDict no_endpoint]"
    by simp_all
  have bad: "(1::nat) < length [orders_definition, VDict no_endpoint]
      \<and> [orders_definition, VDict no_endpoint] ! 1 = VDict no_endpoint
      \<and> defective no_endpoint
      \<and> compile_rules 0 None (take 1 [orders_definition, VDict no_endpoint])
          = Inr [(VStr ''orders.*'', VList [VStr ''GET''], Scopes {VStr ''read''})]"
    by (simp add: defective_def compile_orders)
  from compile_all_or_nothing [OF r1 i1] one
  have "well_formed orders_definition" and "methods_valid (VList [VStr ''GET''])"
    by simp_all
  moreover note compile_all_or_nothing [OF r2 i2, THEN conjunct2, rule_format, OF bad]
  moreover have "AccessControl_init (Some [(''rules'', VList [orders_definition, VDict no_endpoint])])
     = Inl (InvalidRuleDefinition Missing_endpoint 1 (VDict no_endpoint))"
  proof -
    have "compile_definition (Suc 0) ck (VDict no_endpoint)
        = Inl (InvalidRuleDefinition Missing_endpoint (Suc 0) (VDict no_endpoint))" for ck
      by (simp add: compile_definition_def)
    then show ?thesis
      by (simp add: AccessControl_init_def compile_orders)
  qed
  ultimately show ?thesis using one by simp
qed

text \<open>
  The claim as it was stated fails for an empty list of methods: the loop over the
  methods finds nothing to reject, and the rule is built with no method at all.
\<close>

theorem rule_without_methods:
  "AccessControl_init (Some [(''rules'', VList [VDict
       [(''endpoint'', VStr ''orders.*''), (''methods'', VList []),
        (''conditions'', VDict [(''Scopes'', VList [VStr ''read''])])]])])
     = Inr [(VStr ''orders.*'', VList [], Scopes {VStr ''read''})]"
  by (simp add: AccessControl_init_def compile_definition_def build_checker_def
      reraise_def Scopes_read)

subsection \<open>Leaf conditions\<close>













end
